theory Spec2Isabelle
  imports Main "HOL-Library.Word" "HOL-Library.Sublist"
begin

section \<open>Data model of \<^verbatim>\<open>cmd/gen-books/gen_book.go\<close>\<close>

text \<open>
  A Go \<^verbatim>\<open>error\<close> is represented by its message. A Go function returning
  \<^verbatim>\<open>(T, error)\<close> returns a pair whose second component is \<open>None\<close> for \<^verbatim>\<open>nil\<close>.
\<close>

datatype error = Error (message: string)

text \<open>\<^verbatim>\<open>kvstore.KeyValue\<close> and \<^verbatim>\<open>kvstore.Doc\<close>, as the source uses them: a slice of
  key/value pairs (\<^verbatim>\<open>dumpKV\<close> ranges over it, \<^verbatim>\<open>genContributorsChapter\<close> appends to it).\<close>

record KeyValue =
  Key :: string
  Value :: string

type_synonym Doc = "KeyValue list"

text \<open>
  \<^verbatim>\<open>type Article struct\<close>. The slice \<^verbatim>\<open>Siblings []Article\<close> holds articles by value, so
  the type is recursive. The pointer \<^verbatim>\<open>Chapter *Chapter\<close> is a back reference; it is kept
  as the directory name of the chapter it points to (\<open>None\<close> for \<^verbatim>\<open>nil\<close>).
  \<^verbatim>\<open>No\<close> only ever receives an index plus one, so it is an \<open>int\<close>.
\<close>

datatype Article = Article
  (ID: string)
  (No: int)
  (Chapter: "string option")
  (Title: string)
  (FileNameBase: string)
  (BodyMarkdown: string)
  (BodyHTML: string)
  (Siblings: "Article list")
  (IsCurrent: bool)
  (sourceFilePath: string)
  (AnalyticsCode: string)

text \<open>Field assignments \<^verbatim>\<open>a.No = n\<close>, \<^verbatim>\<open>a.IsCurrent = b\<close>, \<^verbatim>\<open>a.Siblings = s\<close> and
  \<^verbatim>\<open>a.Chapter = c\<close> on an article value.\<close>

fun set_No :: "int \<Rightarrow> Article \<Rightarrow> Article" where
  "set_No n (Article i _ c t f bm bh s cur p an) = Article i n c t f bm bh s cur p an"

fun set_IsCurrent :: "bool \<Rightarrow> Article \<Rightarrow> Article" where
  "set_IsCurrent b (Article i n c t f bm bh s _ p an) = Article i n c t f bm bh s b p an"

fun set_Siblings :: "Article list \<Rightarrow> Article \<Rightarrow> Article" where
  "set_Siblings s (Article i n c t f bm bh _ cur p an) = Article i n c t f bm bh s cur p an"

fun set_Chapter :: "string option \<Rightarrow> Article \<Rightarrow> Article" where
  "set_Chapter c (Article i n _ t f bm bh s cur p an) = Article i n c t f bm bh s cur p an"

text \<open>
  \<^verbatim>\<open>type Chapter struct\<close>. \<^verbatim>\<open>Articles []*Article\<close> is a slice of pointers; every pointer
  in it comes from a separate \<^verbatim>\<open>&Article{...}\<close> in \<^verbatim>\<open>parseArticle\<close>, so the slice is a
  list of article values. The back reference \<^verbatim>\<open>Book *Book\<close> is kept as the
  book's title.
\<close>

record Chapter =
  ID :: string
  Book :: "string option"
  ChapterDir :: string
  indexFilePath :: string
  indexDoc :: Doc
  Title :: string
  FileNameBase :: string
  Articles :: "Article list"
  No :: int
  AnalyticsCode :: string

record SoContributor =
  ID :: int
  URLPart :: string
  Name :: string

text \<open>
  \<^verbatim>\<open>type Book struct\<close>. \<^verbatim>\<open>cachedArticlesCount\<close> is a Go \<^verbatim>\<open>int\<close> that accumulates slice
  lengths; it is a 64-bit word read with \<open>sint\<close>. The fields \<^verbatim>\<open>sem\<close> and \<^verbatim>\<open>wg\<close> are
  never used by the code (\<^verbatim>\<open>parseBook\<close> has locals of the same names).
\<close>

record Book =
  Title :: string
  titleSafe :: string
  TitleLong :: string
  FileNameBase :: string
  Chapters :: "Chapter list"
  sourceDir :: string
  destDir :: string
  SoContributors :: "SoContributor list"
  cachedArticlesCount :: "64 word"
  defaultLang :: string
  knownUrls :: "string list"
  AnalyticsCode :: string

text \<open>What \<^verbatim>\<open>os.FileInfo\<close> is asked for: \<^verbatim>\<open>Name()\<close>, \<^verbatim>\<open>IsDir()\<close>, \<^verbatim>\<open>Mode().IsRegular()\<close>.\<close>

record FileInfo =
  Name :: string
  IsDir :: bool
  IsRegular :: bool

text \<open>
  How a call ends: it returns, it panics (\<^verbatim>\<open>u.PanicIfErr\<close>, \<^verbatim>\<open>maybePanicIfErr\<close>), or it
  ends the process with \<^verbatim>\<open>os.Exit\<close>. Standard output is the list of the strings printed,
  one per \<^verbatim>\<open>fmt.Printf\<close>.
\<close>

datatype 'a outcome = Returned 'a | Panicked error | Exited int

section \<open>The environment: the file system and the code outside this file\<close>

text \<open>
  The packages \<^verbatim>\<open>common\<close> and \<^verbatim>\<open>kvstore\<close>, the helpers \<^verbatim>\<open>maybePanicIfErr\<close>,
  \<^verbatim>\<open>extractCodeSnippetsAsMarkdownLines\<close>, \<^verbatim>\<open>getAlmostMaxProcs\<close> and the variable
  \<^verbatim>\<open>destEssentialDir\<close> live in other files, and \<^verbatim>\<open>path/filepath\<close>, \<^verbatim>\<open>io/ioutil\<close>,
  \<^verbatim>\<open>strings.ToLower\<close> and \<^verbatim>\<open>time\<close> depend on the platform and the disk. They are
  parameters: every theorem below holds for each value of them.

  \<^item> \<open>maybePanicIfErr e\<close> is \<open>None\<close> when the helper does not return on the error \<open>e\<close>
    (it panics), and \<open>Some out\<close> when it returns after printing \<open>out\<close>. It is only ever
    called with a non-nil error.
  \<^item> \<open>loadSoContributors path\<close> stands for the body of \<^verbatim>\<open>loadSoContributorsMust\<close>
    (integer parsing, a table of another file, \<^verbatim>\<open>sort.Slice\<close>): \<open>Inl e\<close> when one of its
    \<^verbatim>\<open>u.PanicIfErr\<close>/\<^verbatim>\<open>u.PanicIf\<close> calls panics, \<open>Inr cs\<close> for the list it stores in
    \<^verbatim>\<open>book.SoContributors\<close>.
  \<^item> \<open>elapsed\<close> is the text of \<^verbatim>\<open>time.Since(timeStart)\<close> in the last line \<^verbatim>\<open>parseBook\<close>
    prints.
\<close>

record env =
  ReadFileAsLines :: "string \<Rightarrow> string list \<times> error option"
  extractCodeSnippetsAsMarkdownLines :: "string \<Rightarrow> string \<Rightarrow> string list \<times> error option"
  ParseKVLines :: "string list \<Rightarrow> Doc \<times> error option"
  ParseKVFile :: "string \<Rightarrow> Doc \<times> error option"
  MakeURLSafe :: "string \<Rightarrow> string"
  ShortenString :: "string \<Rightarrow> string"
  maybePanicIfErr :: "error \<Rightarrow> string list option"
  ReadDir :: "string \<Rightarrow> FileInfo list \<times> error option"
  Join :: "string list \<Rightarrow> string"
  Dir :: "string \<Rightarrow> string"
  Ext :: "string \<Rightarrow> string"
  ToLower :: "string \<Rightarrow> string"
  loadSoContributors :: "string \<Rightarrow> error + SoContributor list"
  getAlmostMaxProcs :: int
  destEssentialDir :: string
  elapsed :: string

section \<open>Strings and formatting\<close>

definition sq :: string where
  "sq = [CHR 0x27]"

definition nl :: string where
  "nl = [CHR 0x0A]"

text \<open>\<^verbatim>\<open>strings.Contains(s, " ")\<close>: the byte \<open>0x20\<close> occurs in \<open>s\<close>.\<close>

definition Contains_space :: "string \<Rightarrow> bool" where
  "Contains_space s = (CHR '' '' \<in> set s)"

text \<open>\<^verbatim>\<open>strings.HasPrefix\<close> is \<^const>\<open>prefix\<close>; \<^verbatim>\<open>strings.Join(lines, sep)\<close>:\<close>

fun Join_strings :: "string list \<Rightarrow> string \<Rightarrow> string" where
  "Join_strings [] sep = []"
| "Join_strings [x] sep = x"
| "Join_strings (x # y # ys) sep = x @ sep @ Join_strings (y # ys) sep"

text \<open>The verb \<^verbatim>\<open>%d\<close> of \<^verbatim>\<open>fmt\<close>: decimal digits, with a minus sign below zero.\<close>

fun digits :: "nat \<Rightarrow> string" where
  "digits n = (if n < 10 then [char_of (48 + n)] else digits (n div 10) @ [char_of (48 + n mod 10)])"

declare digits.simps [simp del]

definition fmt_d :: "int \<Rightarrow> string" where
  "fmt_d i = (if i < 0 then ''-'' @ digits (nat (- i)) else digits (nat i))"

section \<open>Sibling lists\<close>

text \<open>
  \<^verbatim>\<open>buildArticleSiblings\<close>. The first loop appends to \<^verbatim>\<open>siblings\<close> a copy of each article
  with \<^verbatim>\<open>No = i + 1\<close>. The second loop gives the article at index \<open>i\<close> a fresh copy of
  \<^verbatim>\<open>siblings\<close> whose entry \<open>i\<close> has \<^verbatim>\<open>IsCurrent = true\<close>; \<open>i\<close> is below the length of the
  copy, so \<^verbatim>\<open>copy[i]\<close> never panics.
\<close>

definition siblings_template :: "Article list \<Rightarrow> Article list" where
  "siblings_template articles =
     fold (\<lambda>(i, article) siblings. siblings @ [set_No (int i + 1) article])
       (enumerate 0 articles) []"

definition buildArticleSiblings :: "Article list \<Rightarrow> Article list" where
  "buildArticleSiblings articles =
     (let siblings = siblings_template articles
      in map (\<lambda>(i, article).
                let copy = siblings;
                    copy = copy[i := set_IsCurrent True (copy ! i)]
                in set_Siblings copy article)
             (enumerate 0 articles))"

section \<open>KV documents\<close>

text \<open>
  Modelled from the spec: the methods \<^verbatim>\<open>GetValue\<close> and \<^verbatim>\<open>GetValueSilent\<close> of
  \<^verbatim>\<open>kvstore.Doc\<close>, which are not in this file. The spec: \<^verbatim>\<open>GetValue(key)\<close> returns the
  first entry's value for that key or a not-found error; \<^verbatim>\<open>GetValueSilent(key, default)\<close>
  never fails, substituting \<^verbatim>\<open>default\<close>. With the error the string is Go's zero value.
\<close>

fun GetValue :: "Doc \<Rightarrow> string \<Rightarrow> string \<times> error option" where
  "GetValue [] key = ('''', Some (Error (''key '' @ sq @ key @ sq @ '' not found'')))"
| "GetValue (kv # doc) key = (if Key kv = key then (Value kv, None) else GetValue doc key)"

definition GetValueSilent :: "Doc \<Rightarrow> string \<Rightarrow> string \<Rightarrow> string" where
  "GetValueSilent doc key def =
     (case GetValue doc key of (v, None) \<Rightarrow> v | (_, Some _) \<Rightarrow> def)"

definition defTitle :: string where
  "defTitle = ''No Title''"

text \<open>\<^verbatim>\<open>dumpKV\<close>: one \<^verbatim>\<open>Printf\<close> per entry, in the order of the document.\<close>

definition dumpKV :: "env \<Rightarrow> Doc \<Rightarrow> string list" where
  "dumpKV E doc =
     map (\<lambda>kv. ''K: '' @ Key kv @ nl @ ''V: '' @ ShortenString E (Value kv) @ nl) doc"

text \<open>
  \<^verbatim>\<open>processFileIncludes\<close>. The loop over the lines of the file stops at the first
  \<^verbatim>\<open>@file\<close> line whose extraction fails, prints the error and returns it; otherwise a
  directive line is replaced by the extracted lines and any other line is kept.
  The result is the pair \<^verbatim>\<open>(res, err)\<close> together with what was printed.
\<close>

fun includeLines :: "env \<Rightarrow> string \<Rightarrow> string list \<Rightarrow> string list
    \<Rightarrow> (string list \<times> error option) \<times> string list" where
  "includeLines E path [] res = ((res, None), [])"
| "includeLines E path (line # lines) res =
     (if prefix ''@file '' line then
        (case extractCodeSnippetsAsMarkdownLines E (Dir E path) line of
           (lines2, Some err) \<Rightarrow>
             (([], Some err),
              [''processFileIncludes: error '' @ sq @ message err @ sq @ nl])
         | (lines2, None) \<Rightarrow> includeLines E path lines (res @ lines2))
      else includeLines E path lines (res @ [line]))"

definition processFileIncludes :: "env \<Rightarrow> string
    \<Rightarrow> (string list \<times> error option) \<times> string list" where
  "processFileIncludes E path =
     (case ReadFileAsLines E path of
        (lines, Some err) \<Rightarrow> (([], Some err), [])
      | (lines, None) \<Rightarrow> includeLines E path lines [])"

text \<open>\<^verbatim>\<open>paarseKVFileWithIncludes\<close>: parse the expanded lines, or, when the expansion
  failed, the file itself.\<close>

definition paarseKVFileWithIncludes :: "env \<Rightarrow> string \<Rightarrow> (Doc \<times> error option) \<times> string list" where
  "paarseKVFileWithIncludes E path =
     (case processFileIncludes E path of
        ((lines, None), out) \<Rightarrow> (ParseKVLines E lines, out)
      | ((lines, Some err), out) \<Rightarrow> (ParseKVFile E path, out))"

section \<open>Articles and chapters\<close>

text \<open>
  \<^verbatim>\<open>parseArticle\<close>. It returns \<^verbatim>\<open>(article, nil)\<close> or \<^verbatim>\<open>(nil, err)\<close>, here \<open>Inr\<close> and
  \<open>Inl\<close>. \<open>newArticle\<close> is the article as it stands at a successful return: the struct
  literal \<^verbatim>\<open>&Article{sourceFilePath: path}\<close> with the fields assigned since.
\<close>

definition newArticle :: "string \<Rightarrow> string \<Rightarrow> string \<Rightarrow> string \<Rightarrow> string \<Rightarrow> string \<Rightarrow> Article" where
  "newArticle path ident title fileNameBase bodyMarkdown bodyHTML =
     Article ident 0 None title fileNameBase bodyMarkdown bodyHTML [] False path ''''"

definition parseArticle :: "env \<Rightarrow> string \<Rightarrow> (error + Article) outcome \<times> string list" where
  "parseArticle E path =
     (case paarseKVFileWithIncludes E path of
        ((doc, Some err), out0) \<Rightarrow>
          (let out1 = out0 @ [''Error parsing KV file: '' @ sq @ path @ sq @ nl]
           in case maybePanicIfErr E err of
                None \<Rightarrow> (Panicked err, out1)
              | Some out2 \<Rightarrow> (Returned (Inl err), out1 @ out2))
      | ((doc, None), out0) \<Rightarrow>
          (case GetValue doc ''Id'' of
             (ident, Some err) \<Rightarrow>
               (Returned (Inl (Error (''parseArticle('' @ sq @ path @ sq @ ''), err: ''
                   @ sq @ message err @ sq))), out0)
           | (ident, None) \<Rightarrow>
               if Contains_space ident then
                 (Returned (Inl (Error (''parseArticle('' @ sq @ path @ sq @ ''), res.ID = ''
                     @ sq @ ident @ sq @ '' has space in it''))), out0)
               else
                 let title = GetValueSilent doc ''Title'' defTitle;
                     out1 = out0 @ (if title = defTitle
                                     then [''parseArticle: no title for '' @ path @ nl] else []);
                     titleSafe = MakeURLSafe E title;
                     fileNameBase = ''a-'' @ ident @ ''-'' @ titleSafe
                 in case GetValue doc ''Body'' of
                      (bodyMarkdown, None) \<Rightarrow>
                        (Returned (Inr (newArticle path ident title fileNameBase bodyMarkdown '''')), out1)
                    | (bodyMarkdown, Some _) \<Rightarrow>
                        (case GetValue doc ''BodyHtml'' of
                           (s, None) \<Rightarrow>
                             (Returned (Inr (newArticle path ident title fileNameBase bodyMarkdown s)), out1)
                         | (s, Some err) \<Rightarrow>
                             (Returned (Inl (Error (''parseArticle('' @ sq @ path @ sq @ ''), err: ''
                                 @ sq @ message err @ sq))), out1 @ dumpKV E doc))))"

text \<open>What a callee printed comes before what the rest of the caller prints.\<close>

definition after_output :: "string list \<Rightarrow> 'a \<times> string list \<Rightarrow> 'a \<times> string list" where
  "after_output out r = (fst r, out @ snd r)"

text \<open>
  The loop of \<^verbatim>\<open>parseChapter\<close> over the directory listing. Directories, irregular
  files, files whose lower-cased extension is not \<^verbatim>\<open>.md\<close> and the index file are
  skipped. The first article that fails ends the loop with its error. A parsed article
  gets its chapter and \<^verbatim>\<open>No = len(articles) + 1\<close> and is appended.
\<close>

fun parseArticles :: "env \<Rightarrow> string \<Rightarrow> string \<Rightarrow> FileInfo list \<Rightarrow> Article list
    \<Rightarrow> (error + Article list) outcome \<times> string list" where
  "parseArticles E dir chapterDir [] articles = (Returned (Inr articles), [])"
| "parseArticles E dir chapterDir (fi # fileInfos) articles =
     (if IsDir fi \<or> \<not> IsRegular fi then parseArticles E dir chapterDir fileInfos articles
      else if ToLower E (Ext E (Name fi)) \<noteq> ''.md''
        then parseArticles E dir chapterDir fileInfos articles
      else if ToLower E (Name fi) = ''000-index.md''
        then parseArticles E dir chapterDir fileInfos articles
      else
        (case parseArticle E (Join E [dir, Name fi]) of
           (Panicked e, out) \<Rightarrow> (Panicked e, out)
         | (Exited n, out) \<Rightarrow> (Exited n, out)
         | (Returned (Inl err), out) \<Rightarrow> (Returned (Inl err), out)
         | (Returned (Inr article), out) \<Rightarrow>
             (let article = set_Chapter (Some chapterDir) article;
                  article = set_No (int (length articles) + 1) article
              in after_output out
                   (parseArticles E dir chapterDir fileInfos (articles @ [article])))))"

text \<open>
  \<^verbatim>\<open>parseChapter\<close> mutates the chapter it is given and returns an error or \<^verbatim>\<open>nil\<close>; the
  model returns the chapter as the call leaves it, with the error. \<open>book\<close> is the book
  \<^verbatim>\<open>chapter.Book\<close> points to. \<open>parseChapterDoc\<close> is the function from the assignment
  \<^verbatim>\<open>chapter.indexDoc = doc\<close> on. When the index file does not parse and
  \<^verbatim>\<open>maybePanicIfErr\<close> returns, the code goes on with the document that came with the
  error. The error of \<^verbatim>\<open>ioutil.ReadDir\<close> is dropped by the code.
\<close>

definition parseChapterDoc :: "env \<Rightarrow> string \<Rightarrow> string \<Rightarrow> Doc \<Rightarrow> Chapter
    \<Rightarrow> (Chapter \<times> error option) outcome \<times> string list" where
  "parseChapterDoc E dir path doc chapter =
     (let chapter = chapter\<lparr>indexDoc := doc\<rparr>
      in case GetValue doc ''Title'' of (title, err) \<Rightarrow>
        (let chapter = chapter\<lparr>Chapter.Title := title\<rparr>
         in case err of
           Some e \<Rightarrow>
             (Returned (chapter, Some (Error (''parseChapter('' @ sq @ path @ sq
                 @ ''), missing Title, err: '' @ sq @ message e @ sq))), [])
         | None \<Rightarrow>
            (case GetValue doc ''Id'' of (ident, err) \<Rightarrow>
              (let chapter = chapter\<lparr>Chapter.ID := ident\<rparr>
               in case err of
                 Some e \<Rightarrow>
                   (Returned (chapter, Some (Error (''parseChapter('' @ sq @ path @ sq
                       @ ''), missing Id, err: '' @ sq @ message e @ sq))), [])
               | None \<Rightarrow>
                   if Contains_space (Chapter.ID chapter) then
                     (Returned (chapter, Some (Error (''parseChapter('' @ sq @ path @ sq
                         @ ''), chapter.ID = '' @ sq @ Chapter.ID chapter @ sq
                         @ '' has space in it''))), [])
                   else
                     (let titleSafe = MakeURLSafe E (Chapter.Title chapter);
                          chapter = chapter\<lparr>Chapter.FileNameBase :=
                            ''ch-'' @ Chapter.ID chapter @ ''-'' @ titleSafe\<rparr>;
                          fileInfos = fst (ReadDir E dir)
                      in case parseArticles E dir (ChapterDir chapter) fileInfos [] of
                           (Panicked e, out) \<Rightarrow> (Panicked e, out)
                         | (Exited n, out) \<Rightarrow> (Exited n, out)
                         | (Returned (Inl e), out) \<Rightarrow> (Returned (chapter, Some e), out)
                         | (Returned (Inr articles), out) \<Rightarrow>
                             (Returned (chapter\<lparr>Articles := buildArticleSiblings articles\<rparr>,
                                None), out))))))"

definition parseChapter :: "env \<Rightarrow> Book \<Rightarrow> Chapter
    \<Rightarrow> (Chapter \<times> error option) outcome \<times> string list" where
  "parseChapter E book chapter =
     (let dir = Join E [sourceDir book, ChapterDir chapter];
          path = Join E [dir, ''000-index.md''];
          chapter = chapter\<lparr>indexFilePath := path\<rparr>
      in case paarseKVFileWithIncludes E path of
           ((doc, None), out0) \<Rightarrow> after_output out0 (parseChapterDoc E dir path doc chapter)
         | ((doc, Some err), out0) \<Rightarrow>
             (let out1 = out0 @ [''Error parsing KV file: '' @ sq @ path @ sq @ nl]
              in case maybePanicIfErr E err of
                   None \<Rightarrow> (Panicked err, out1)
                 | Some out2 \<Rightarrow>
                     after_output (out1 @ out2) (parseChapterDoc E dir path doc chapter)))"

section \<open>The contributors chapter\<close>

definition soContributorURL :: "int \<Rightarrow> string \<Rightarrow> string" where
  "soContributorURL userID userName =
     ''https://stackoverflow.com/users/'' @ fmt_d userID @ ''/'' @ userName"

definition genContributorsMarkdown :: "SoContributor list \<Rightarrow> string" where
  "genContributorsMarkdown contributors =
     (if length contributors = 0 then ''''
      else Join_strings
        ([''Contributors from [GitHub](https://github.com/essentialbooks/books/graphs/contributors)'',
          '''',
          ''Contributors from Stack Overflow:'']
         @ map (\<lambda>c. ''* ['' @ SoContributor.Name c @ '']('' @ soContributorURL (SoContributor.ID c) (SoContributor.Name c) @ '')'')
             contributors)
        nl)"

text \<open>The struct literal of \<^verbatim>\<open>genContributorsChapter\<close>; unnamed fields are zero.\<close>

definition genContributorsChapter :: "Book \<Rightarrow> Chapter" where
  "genContributorsChapter book =
     (let md = genContributorsMarkdown (SoContributors book);
          doc = [] @ [\<lparr>Key = ''Body'', Value = md\<rparr>]
      in \<lparr>Chapter.ID = '''', Book = Some (Book.Title book), ChapterDir = '''',
          indexFilePath = '''', indexDoc = doc, Chapter.Title = ''Contributors'',
          Chapter.FileNameBase = ''ch-contributors'', Articles = [], Chapter.No = 999,
          Chapter.AnalyticsCode = ''''\<rparr>)"

section \<open>Identifier validation\<close>

text \<open>
  \<^verbatim>\<open>ensureUniqueIds\<close>. The two Go maps are partial functions. The inner loop, over the
  articles of one chapter: an identifier already in \<^verbatim>\<open>articleIds\<close> makes an error that
  is handed to \<^verbatim>\<open>maybePanicIfErr\<close>; otherwise the article is entered and its file name
  base appended to \<^verbatim>\<open>urls\<close>.
\<close>

definition duplicateArticleError :: "Article \<Rightarrow> Article \<Rightarrow> error" where
  "duplicateArticleError a a2 =
     Error (''Duplicate article id: '' @ sq @ Article.ID a @ sq @ '', in: ''
              @ sourceFilePath a @ '' and '' @ sourceFilePath a2)"

fun uniqueArticles :: "env \<Rightarrow> Article list \<Rightarrow> string list \<Rightarrow> (string \<rightharpoonup> Article)
    \<Rightarrow> (string list \<times> (string \<rightharpoonup> Article)) outcome \<times> string list" where
  "uniqueArticles E [] urls articleIds = (Returned (urls, articleIds), [])"
| "uniqueArticles E (a # articles) urls articleIds =
     (case articleIds (Article.ID a) of
        Some a2 \<Rightarrow>
          (let err = duplicateArticleError a a2
           in case maybePanicIfErr E err of
                None \<Rightarrow> (Panicked err, [])
              | Some out \<Rightarrow> after_output out (uniqueArticles E articles urls articleIds))
      | None \<Rightarrow>
          uniqueArticles E articles (urls @ [Article.FileNameBase a])
            (articleIds(Article.ID a \<mapsto> a)))"

text \<open>The three lines printed before \<^verbatim>\<open>os.Exit(1)\<close>: \<open>c\<close> is the chapter at hand,
  \<open>chap\<close> the one found in \<^verbatim>\<open>chapterIds\<close>.\<close>

definition duplicateChapterReport :: "Chapter \<Rightarrow> Chapter \<Rightarrow> string list" where
  "duplicateChapterReport c chap =
     [''Duplicate chapter id '' @ sq @ Chapter.ID c @ sq @ '' in:'' @ nl,
      ''Chapter '' @ sq @ Chapter.Title c @ sq @ '', file: '' @ sq @ indexFilePath c @ sq @ nl,
      ''Chapter '' @ sq @ Chapter.Title chap @ sq @ '', file: '' @ sq @ indexFilePath chap @ sq @ nl]"

fun uniqueChapters :: "env \<Rightarrow> Chapter list \<Rightarrow> string list \<Rightarrow> (string \<rightharpoonup> Chapter)
    \<Rightarrow> (string \<rightharpoonup> Article) \<Rightarrow> string list outcome \<times> string list" where
  "uniqueChapters E [] urls chapterIds articleIds = (Returned urls, [])"
| "uniqueChapters E (c # chapters) urls chapterIds articleIds =
     (case chapterIds (Chapter.ID c) of
        Some chap \<Rightarrow> (Exited 1, duplicateChapterReport c chap)
      | None \<Rightarrow>
          (let chapterIds = chapterIds(Chapter.ID c \<mapsto> c);
               urls = urls @ [Chapter.FileNameBase c]
           in case uniqueArticles E (Articles c) urls articleIds of
                (Panicked e, out) \<Rightarrow> (Panicked e, out)
              | (Exited n, out) \<Rightarrow> (Exited n, out)
              | (Returned (urls, articleIds), out) \<Rightarrow>
                  after_output out (uniqueChapters E chapters urls chapterIds articleIds)))"

definition ensureUniqueIds :: "env \<Rightarrow> Book \<Rightarrow> Book outcome \<times> string list" where
  "ensureUniqueIds E book =
     (case uniqueChapters E (Chapters book) [] Map.empty Map.empty of
        (Returned urls, out) \<Rightarrow> (Returned (book\<lparr>knownUrls := urls\<rparr>), out)
      | (Panicked e, out) \<Rightarrow> (Panicked e, out)
      | (Exited n, out) \<Rightarrow> (Exited n, out))"

section \<open>Counting articles\<close>

text \<open>\<^verbatim>\<open>ArticlesCount\<close> returns \<open>n\<close> and leaves it in \<^verbatim>\<open>b.cachedArticlesCount\<close>; Go's
  \<^verbatim>\<open>int\<close> addition wraps.\<close>

definition ArticlesCount :: "Book \<Rightarrow> 64 word \<times> Book" where
  "ArticlesCount b =
     (if cachedArticlesCount b \<noteq> 0 then (cachedArticlesCount b, b)
      else
        let n = fold (\<lambda>ch n. n + of_nat (length (Articles ch))) (Chapters b) 0;
            n = n + of_nat (length (Chapters b))
        in (n, b\<lparr>cachedArticlesCount := n\<rparr>))"

definition ChaptersCount :: "Book \<Rightarrow> int" where
  "ChaptersCount b = int (length (Chapters b))"

section \<open>Parsing a book\<close>

text \<open>
  The loop of \<^verbatim>\<open>parseBook\<close> over the top-level directory. For a directory it makes a
  chapter, appends it to \<^verbatim>\<open>chapters\<close> and starts a goroutine that runs
  \<^verbatim>\<open>parseChapter\<close> on it. A goroutine writes to its own chapter and to the variables
  \<^verbatim>\<open>err\<close> and \<^verbatim>\<open>err2\<close> only, so at \<^verbatim>\<open>wg.Wait()\<close> each chapter is what \<^verbatim>\<open>parseChapter\<close>
  made of it, whatever the schedule. This function follows the schedule in which every
  goroutine finishes before the next one is started; the order of the printed lines and
  the value of \<^verbatim>\<open>err2\<close> are those of that schedule. The interleavings themselves are
  modelled further down, by the function \<open>advance\<close>.
\<close>

definition newChapter :: "Book \<Rightarrow> string \<Rightarrow> Chapter" where
  "newChapter book name =
     \<lparr>Chapter.ID = '''', Book = Some (Book.Title book), ChapterDir = name,
      indexFilePath = '''', indexDoc = [], Chapter.Title = '''',
      Chapter.FileNameBase = '''', Articles = [], Chapter.No = 0,
      Chapter.AnalyticsCode = ''''\<rparr>"

fun scanTopLevel :: "env \<Rightarrow> string \<Rightarrow> FileInfo list \<Rightarrow> Book \<Rightarrow> Chapter list \<Rightarrow> error option
    \<Rightarrow> (error + Book \<times> Chapter list \<times> error option) outcome \<times> string list" where
  "scanTopLevel E srcDir [] book chapters err2 = (Returned (Inr (book, chapters, err2)), [])"
| "scanTopLevel E srcDir (fi # fileInfos) book chapters err2 =
     (if IsDir fi then
        (case parseChapter E book (newChapter book (FileInfo.Name fi)) of
           (Panicked e, out) \<Rightarrow> (Panicked e, out)
         | (Exited n, out) \<Rightarrow> (Exited n, out)
         | (Returned (ch, err), out) \<Rightarrow>
             after_output out
               (scanTopLevel E srcDir fileInfos book (chapters @ [ch])
                  (case err of None \<Rightarrow> err2 | Some e \<Rightarrow> Some e)))
      else
        (let name = ToLower E (FileInfo.Name fi)
         in if name = ''toc.txt'' then scanTopLevel E srcDir fileInfos book chapters err2
            else if name = ''so_contributors.txt'' then
              (case loadSoContributors E (Join E [srcDir, FileInfo.Name fi]) of
                 Inl e \<Rightarrow> (Panicked e, [])
               | Inr contributors \<Rightarrow>
                   scanTopLevel E srcDir fileInfos (book\<lparr>SoContributors := contributors\<rparr>)
                     chapters err2)
            else
              (Returned (Inl (Error (''Unexpected file at top-level: '' @ sq @ FileInfo.Name fi @ sq))),
               [])))"

text \<open>The loop \<^verbatim>\<open>for i, ch := range chapters { ch.No = i + 1 }\<close>.\<close>

definition numberChapters :: "Chapter list \<Rightarrow> Chapter list" where
  "numberChapters chapters = map (\<lambda>(i, ch). ch\<lparr>Chapter.No := int i + 1\<rparr>) (enumerate 0 chapters)"

text \<open>The struct literal at the start of \<^verbatim>\<open>parseBook\<close>.\<close>

definition newBook :: "env \<Rightarrow> string \<Rightarrow> Book" where
  "newBook E bookName =
     (let bookNameSafe = MakeURLSafe E bookName;
          srcDir = Join E [''books'', bookNameSafe]
      in \<lparr>Book.Title = bookName, titleSafe = bookNameSafe,
          TitleLong = ''Essential '' @ bookName, Book.FileNameBase = bookNameSafe,
          Chapters = [], sourceDir = srcDir,
          destDir = Join E [destEssentialDir E, bookNameSafe],
          SoContributors = [], cachedArticlesCount = 0, defaultLang = '''',
          knownUrls = [], Book.AnalyticsCode = ''''\<rparr>)"

text \<open>\<^verbatim>\<open>parseBook\<close> from the line after \<^verbatim>\<open>wg.Wait()\<close> on: the contributors chapter, the
  numbering, \<^verbatim>\<open>ensureUniqueIds\<close>, the last line printed, and the return of
  \<^verbatim>\<open>(book, err2)\<close>.\<close>

definition afterBarrier :: "env \<Rightarrow> string \<Rightarrow> Book \<Rightarrow> Chapter list \<Rightarrow> error option
    \<Rightarrow> (Book option \<times> error option) outcome \<times> string list" where
  "afterBarrier E bookName book chapters err2 =
     (let ch = genContributorsChapter book;
          chapters = chapters @ [ch];
          chapters = numberChapters chapters;
          book = book\<lparr>Chapters := chapters\<rparr>
      in case ensureUniqueIds E book of
           (Panicked e, out1) \<Rightarrow> (Panicked e, out1)
         | (Exited n, out1) \<Rightarrow> (Exited n, out1)
         | (Returned book, out1) \<Rightarrow>
             (case ArticlesCount book of (n, book) \<Rightarrow>
               (Returned (Some book, err2),
                out1 @
                [''Book '' @ sq @ bookName @ sq @ '' '' @ fmt_d (int (length chapters))
                 @ '' chapters, '' @ fmt_d (sint n)
                 @ '' articles, finished parsing in '' @ elapsed E @ nl])))"

text \<open>\<^verbatim>\<open>parseBook\<close> returns \<^verbatim>\<open>(nil, err)\<close> or \<^verbatim>\<open>(book, err2)\<close>, where \<^verbatim>\<open>err2\<close> may be
  non-nil beside a book.\<close>

definition parseBook :: "env \<Rightarrow> string \<Rightarrow> (Book option \<times> error option) outcome \<times> string list" where
  "parseBook E bookName =
     (let out0 = [''Parsing book '' @ bookName @ nl];
          book = newBook E bookName;
          srcDir = sourceDir book
      in case ReadDir E srcDir of
           (fileInfos, Some err) \<Rightarrow> (Returned (None, Some err), out0)
         | (fileInfos, None) \<Rightarrow>
             (case scanTopLevel E srcDir fileInfos book [] None of
                (Panicked e, out) \<Rightarrow> (Panicked e, out0 @ out)
              | (Exited n, out) \<Rightarrow> (Exited n, out0 @ out)
              | (Returned (Inl err), out) \<Rightarrow> (Returned (None, Some err), out0 @ out)
              | (Returned (Inr (book, chapters, err2)), out) \<Rightarrow>
                  after_output (out0 @ out) (afterBarrier E bookName book chapters err2)))"

section \<open>The URL manifest, stated from the positions of the articles\<close>

text \<open>
  These definitions follow the words of the specification, not the loops of
  \<^verbatim>\<open>ensureUniqueIds\<close>. \<open>earlier\<close> is the list of the articles of the book that come before
  the ones at hand. An article at position \<open>k\<close> of \<open>articles\<close> is a first occurrence when
  its identifier belongs to no article of \<open>earlier\<close> and to none of the first \<open>k\<close> of
  \<open>articles\<close>.
\<close>

definition firstOccurrences :: "Article list \<Rightarrow> Article list \<Rightarrow> Article list" where
  "firstOccurrences earlier articles =
     map snd (filter (\<lambda>(k, a). Article.ID a \<notin> set (map Article.ID (earlier @ take k articles)))
                (enumerate 0 articles))"

text \<open>The manifest: for each chapter in order, its file name base, then the file name
  bases of those of its articles that are first occurrences in the book.\<close>

definition manifestFrom :: "Article list \<Rightarrow> Chapter list \<Rightarrow> string list" where
  "manifestFrom earlier chapters =
     concat (map (\<lambda>(n, c). Chapter.FileNameBase c #
                    map Article.FileNameBase
                      (firstOccurrences (earlier @ concat (map Articles (take n chapters))) (Articles c)))
               (enumerate 0 chapters))"

definition manifest :: "Chapter list \<Rightarrow> string list" where
  "manifest chapters = manifestFrom [] chapters"

text \<open>The errors for the repeated identifiers: one for each article that is not a first
  occurrence, naming the article and the first article of the book with its identifier.\<close>

definition repeatedErrors :: "Article list \<Rightarrow> Article list \<Rightarrow> error list" where
  "repeatedErrors earlier articles =
     concat (map (\<lambda>(k, a). case find (\<lambda>x. Article.ID x = Article.ID a) (earlier @ take k articles) of
                              Some a2 \<Rightarrow> [duplicateArticleError a a2]
                            | None \<Rightarrow> [])
               (enumerate 0 articles))"

definition duplicateErrorsFrom :: "Article list \<Rightarrow> Chapter list \<Rightarrow> error list" where
  "duplicateErrorsFrom earlier chapters =
     concat (map (\<lambda>(n, c). repeatedErrors (earlier @ concat (map Articles (take n chapters))) (Articles c))
               (enumerate 0 chapters))"

definition duplicateErrors :: "Chapter list \<Rightarrow> error list" where
  "duplicateErrors chapters = duplicateErrorsFrom [] chapters"

text \<open>What \<^verbatim>\<open>maybePanicIfErr\<close> prints when it is called on each error of a list and
  returns each time.\<close>

definition reported :: "env \<Rightarrow> error list \<Rightarrow> string list" where
  "reported E errs = concat (map (\<lambda>e. case maybePanicIfErr E e of Some out \<Rightarrow> out | None \<Rightarrow> []) errs)"

section \<open>Include expansion and white space, stated from the specification\<close>

text \<open>The lines of a file after expansion: each \<^verbatim>\<open>@file\<close> line replaced by the lines
  extracted for it, every other line kept, in the order of the file.\<close>

definition expandIncludes :: "env \<Rightarrow> string \<Rightarrow> string list \<Rightarrow> string list" where
  "expandIncludes E path lines =
     concat (map (\<lambda>line. if prefix ''@file '' line
                          then fst (extractCodeSnippetsAsMarkdownLines E (Dir E path) line)
                          else [line]) lines)"

text \<open>A directive of the file whose extraction fails.\<close>

definition failingInclude :: "env \<Rightarrow> string \<Rightarrow> string list \<Rightarrow> bool" where
  "failingInclude E path lines =
     list_ex (\<lambda>line. prefix ''@file '' line
                \<and> snd (extractCodeSnippetsAsMarkdownLines E (Dir E path) line) \<noteq> None) lines"

text \<open>White space in the sense of the specification: the ASCII characters tab, line feed,
  vertical tab, form feed, carriage return and space.\<close>

definition whitespace :: "char \<Rightarrow> bool" where
  "whitespace c = (c \<in> set [CHR 0x09, CHR 0x0A, CHR 0x0B, CHR 0x0C, CHR 0x0D, CHR 0x20])"

definition Contains_whitespace :: "string \<Rightarrow> bool" where
  "Contains_whitespace s = list_ex whitespace s"

text \<open>The number of articles of a book as \<^verbatim>\<open>ArticlesCount\<close> is meant to count them: the
  articles of all chapters, and one more for each chapter.\<close>

definition totalArticles :: "Chapter list \<Rightarrow> nat" where
  "totalArticles chapters = sum_list (map (\<lambda>ch. length (Articles ch)) chapters) + length chapters"

text \<open>The value a document has for a key: that of the first entry with the key.\<close>

definition lookup :: "Doc \<Rightarrow> string \<Rightarrow> string option" where
  "lookup doc key = map_of (map (\<lambda>kv. (Key kv, Value kv)) doc) key"

section \<open>The goroutines of \<^verbatim>\<open>parseBook\<close>, step by step\<close>

text \<open>
  The loop of \<^verbatim>\<open>parseBook\<close> and the goroutines it starts: a state, a function for the
  next statement of each of them, and runs that interleave these steps in any order.

  The goroutine of the chapter at index \<open>i\<close> goes through
  \<^verbatim>\<open>err = parseChapter(chap)\<close> (\<open>Parsing\<close>, until the call has returned and \<^verbatim>\<open>err\<close> is
  written), \<^verbatim>\<open>if err != nil\<close> (\<open>Assigned\<close>), \<^verbatim>\<open>err2 = err\<close> (\<open>Copying\<close>), \<^verbatim>\<open><-sem\<close>
  (\<open>Releasing\<close>) and \<^verbatim>\<open>wg.Done()\<close> (\<open>Leaving\<close>). The variables \<^verbatim>\<open>err\<close> and \<^verbatim>\<open>err2\<close> belong to
  \<^verbatim>\<open>parseBook\<close> and are shared by all goroutines: the closure assigns to the \<^verbatim>\<open>err\<close>
  declared by \<^verbatim>\<open>fileInfos, err := ioutil.ReadDir(srcDir)\<close>.
\<close>

datatype worker = Parsing | Assigned | Copying | Releasing | Leaving | Done

text \<open>Where \<^verbatim>\<open>parseBook\<close> itself is: at entry \<open>k\<close> of the listing, at \<^verbatim>\<open>wg.Wait()\<close>, past it,
  returned from inside the loop, or gone with the process after a panic.\<close>

datatype scanner = Scanning nat | Waiting | Finished | ReturnedEarly error | Crashed error

text \<open>\<open>semCount\<close> is the number of values in the channel \<^verbatim>\<open>sem\<close>, \<open>wgCount\<close> the counter of
  \<^verbatim>\<open>wg\<close>; \<open>chapterObjs\<close> are the chapters the slice \<^verbatim>\<open>chapters\<close> points to.\<close>

record pstate =
  scannerPc :: scanner
  theBook :: Book
  chapterObjs :: "Chapter list"
  workerPcs :: "worker list"
  semCount :: nat
  wgCount :: nat
  errVar :: "error option"
  err2Var :: "error option"

definition initial :: "env \<Rightarrow> string \<Rightarrow> pstate" where
  "initial E bookName =
     \<lparr>scannerPc = Scanning 0, theBook = newBook E bookName, chapterObjs = [], workerPcs = [],
      semCount = 0, wgCount = 0, errVar = None, err2Var = None\<rparr>"

definition crashed :: "pstate \<Rightarrow> bool" where
  "crashed s = (case scannerPc s of Crashed e \<Rightarrow> True | _ \<Rightarrow> False)"

text \<open>
  The next statement of the loop of \<^verbatim>\<open>parseBook\<close> over the listing \<open>fis\<close>; \<open>None\<close> when it
  cannot go on. \<^verbatim>\<open>sem <- true\<close> waits while the channel holds \<^verbatim>\<open>nProcs\<close> values and
  \<^verbatim>\<open>wg.Wait()\<close> while the counter is not zero. For a directory the chapter is appended,
  the channel and the wait group are incremented and the goroutine is started; nothing
  else can tell these apart, so they are one step.
\<close>

definition advanceLoop :: "env \<Rightarrow> FileInfo list \<Rightarrow> pstate \<Rightarrow> pstate option" where
  "advanceLoop E fis s =
     (case scannerPc s of
        Scanning k \<Rightarrow>
          if k < length fis then
            (let fi = fis ! k
             in if IsDir fi then
                  (if int (semCount s) < getAlmostMaxProcs E then
                     Some (s\<lparr>chapterObjs := chapterObjs s @ [newChapter (theBook s) (FileInfo.Name fi)],
                             workerPcs := workerPcs s @ [Parsing],
                             semCount := semCount s + 1, wgCount := wgCount s + 1,
                             scannerPc := Scanning (Suc k)\<rparr>)
                   else None)
                else
                  (let name = ToLower E (FileInfo.Name fi)
                   in if name = ''toc.txt'' then Some (s\<lparr>scannerPc := Scanning (Suc k)\<rparr>)
                      else if name = ''so_contributors.txt'' then
                        (case loadSoContributors E (Join E [sourceDir (theBook s), FileInfo.Name fi]) of
                           Inr cs \<Rightarrow>
                             Some (s\<lparr>theBook := (theBook s)\<lparr>SoContributors := cs\<rparr>,
                                     scannerPc := Scanning (Suc k)\<rparr>)
                         | Inl e \<Rightarrow> Some (s\<lparr>scannerPc := Crashed e\<rparr>))
                      else
                        Some (s\<lparr>scannerPc := ReturnedEarly
                                (Error (''Unexpected file at top-level: ''
                                          @ sq @ FileInfo.Name fi @ sq))\<rparr>)))
          else Some (s\<lparr>scannerPc := Waiting\<rparr>)
      | Waiting \<Rightarrow> if wgCount s = 0 then Some (s\<lparr>scannerPc := Finished\<rparr>) else None
      | Finished \<Rightarrow> None
      | ReturnedEarly e \<Rightarrow> None
      | Crashed e \<Rightarrow> None)"

text \<open>
  The next statement of the goroutine of the chapter at index \<open>i\<close>; \<open>None\<close> when there is
  no such goroutine, when it is done, when it waits (\<^verbatim>\<open><-sem\<close> on an empty channel), or
  when the process is gone after a panic. A panic in \<^verbatim>\<open>parseChapter\<close> ends the process.
  After a return from inside the loop the goroutines already started go on.
  (\<^verbatim>\<open>parseChapter\<close> never calls \<^verbatim>\<open>os.Exit\<close>; that case of the outcome type is there for the
  function to be total.)
\<close>

definition advanceGoroutine :: "env \<Rightarrow> nat \<Rightarrow> pstate \<Rightarrow> pstate option" where
  "advanceGoroutine E i s =
     (if crashed s \<or> length (workerPcs s) \<le> i then None
      else
        (case workerPcs s ! i of
           Parsing \<Rightarrow>
             (case fst (parseChapter E (theBook s) (chapterObjs s ! i)) of
                Returned (c, e) \<Rightarrow>
                  Some (s\<lparr>chapterObjs := (chapterObjs s)[i := c], errVar := e,
                          workerPcs := (workerPcs s)[i := Assigned]\<rparr>)
              | Panicked e \<Rightarrow> Some (s\<lparr>scannerPc := Crashed e\<rparr>)
              | Exited n \<Rightarrow> None)
         | Assigned \<Rightarrow>
             Some (s\<lparr>workerPcs :=
                      (workerPcs s)[i := if errVar s \<noteq> None then Copying else Releasing]\<rparr>)
         | Copying \<Rightarrow>
             Some (s\<lparr>err2Var := errVar s, workerPcs := (workerPcs s)[i := Releasing]\<rparr>)
         | Releasing \<Rightarrow>
             if 0 < semCount s
             then Some (s\<lparr>semCount := semCount s - 1, workerPcs := (workerPcs s)[i := Leaving]\<rparr>)
             else None
         | Leaving \<Rightarrow>
             if 0 < wgCount s
             then Some (s\<lparr>wgCount := wgCount s - 1, workerPcs := (workerPcs s)[i := Done]\<rparr>)
             else None
         | Done \<Rightarrow> None))"

text \<open>A schedule names, step by step, who takes the next step: the loop or a goroutine.\<close>

datatype thread = Loop | Goroutine nat

definition advance :: "env \<Rightarrow> FileInfo list \<Rightarrow> thread \<Rightarrow> pstate \<Rightarrow> pstate option" where
  "advance E fis t s =
     (case t of Loop \<Rightarrow> advanceLoop E fis s | Goroutine i \<Rightarrow> advanceGoroutine E i s)"

fun runSchedule :: "env \<Rightarrow> FileInfo list \<Rightarrow> thread list \<Rightarrow> pstate \<Rightarrow> pstate option" where
  "runSchedule E fis [] s = Some s"
| "runSchedule E fis (t # schedule) s =
     (case advance E fis t s of
        None \<Rightarrow> None
      | Some s' \<Rightarrow> runSchedule E fis schedule s')"

text \<open>
  The states \<^verbatim>\<open>parseBook(bookName)\<close> can be in from the start of the loop on. The loop
  is reached when \<^verbatim>\<open>ioutil.ReadDir\<close> has returned no error, with the listing it returned,
  and when \<^verbatim>\<open>make(chan bool, nProcs)\<close> has not panicked, that is with \<^verbatim>\<open>nProcs\<close> not
  negative.
\<close>

inductive reachable :: "env \<Rightarrow> string \<Rightarrow> pstate \<Rightarrow> bool" for E bookName where
  at_start:
    "snd (ReadDir E (sourceDir (newBook E bookName))) = None \<Longrightarrow> 0 \<le> getAlmostMaxProcs E
     \<Longrightarrow> reachable E bookName (initial E bookName)"
| after_step:
    "reachable E bookName s
     \<Longrightarrow> advance E (fst (ReadDir E (sourceDir (newBook E bookName)))) t s = Some s'
     \<Longrightarrow> reachable E bookName s'"

text \<open>The number of \<^verbatim>\<open>parseChapter\<close> calls in flight, and what \<^verbatim>\<open>parseBook\<close> returns from
  a state past the barrier.\<close>

definition inFlight :: "pstate \<Rightarrow> nat" where
  "inFlight s = length (filter (\<lambda>w. w = Parsing) (workerPcs s))"

definition returnAfterBarrier :: "env \<Rightarrow> string \<Rightarrow> pstate \<Rightarrow> (Book option \<times> error option) outcome" where
  "returnAfterBarrier E bookName s =
     fst (afterBarrier E bookName (theBook s) (chapterObjs s) (err2Var s))"

text \<open>A goroutine holds a value of \<^verbatim>\<open>sem\<close> from its start until its \<^verbatim>\<open><-sem\<close>.\<close>

definition holdsSlot :: "worker \<Rightarrow> bool" where
  "holdsSlot w = (w = Parsing \<or> w = Assigned \<or> w = Copying \<or> w = Releasing)"

text \<open>What holds in every state of a run over the listing \<open>fis\<close>: the channel counts the
  goroutines that hold a slot, the wait group those that are not done, the channel is
  never above its capacity, and there is one goroutine for each directory the loop has
  passed.\<close>

definition consistent :: "env \<Rightarrow> FileInfo list \<Rightarrow> pstate \<Rightarrow> bool" where
  "consistent E fis s =
     (semCount s = length (filter holdsSlot (workerPcs s))
      \<and> wgCount s = length (filter (\<lambda>w. w \<noteq> Done) (workerPcs s))
      \<and> int (semCount s) \<le> getAlmostMaxProcs E
      \<and> length (chapterObjs s) = length (workerPcs s)
      \<and> (case scannerPc s of
            Scanning k \<Rightarrow> k \<le> length fis
              \<and> length (workerPcs s) = length (filter IsDir (take k fis))
          | Waiting \<Rightarrow> length (workerPcs s) = length (filter IsDir fis)
          | Finished \<Rightarrow> length (workerPcs s) = length (filter IsDir fis) \<and> wgCount s = 0
          | ReturnedEarly e \<Rightarrow> True
          | Crashed e \<Rightarrow> True))"

text \<open>The book once the loop has passed the entries \<open>fis\<close>: each \<^verbatim>\<open>so_contributors.txt\<close>
  that loads replaces the contributors.\<close>

definition scannedBook :: "env \<Rightarrow> FileInfo list \<Rightarrow> Book \<Rightarrow> Book" where
  "scannedBook E fis book =
     foldl (\<lambda>b fi.
              if \<not> IsDir fi \<and> ToLower E (FileInfo.Name fi) \<noteq> ''toc.txt''
                 \<and> ToLower E (FileInfo.Name fi) = ''so_contributors.txt''
              then (case loadSoContributors E (Join E [sourceDir b, FileInfo.Name fi]) of
                      Inr cs \<Rightarrow> b\<lparr>SoContributors := cs\<rparr>
                    | Inl e \<Rightarrow> b)
              else b) book fis"

text \<open>What a goroutine leaves of the chapter of the directory \<open>name\<close> of the book \<open>book\<close>:
  the chapter as made by the loop while \<^verbatim>\<open>parseChapter\<close> has not returned, and afterwards
  the chapter as \<^verbatim>\<open>parseChapter\<close> leaves it.\<close>

definition chapterOf :: "env \<Rightarrow> Book \<Rightarrow> string \<Rightarrow> worker \<Rightarrow> Chapter \<Rightarrow> bool" where
  "chapterOf E book name w c =
     (if w = Parsing then c = newChapter book name
      else (case fst (parseChapter E book (newChapter book name)) of
              Returned (c', e) \<Rightarrow> c = c'
            | _ \<Rightarrow> False))"

text \<open>In every state of a run the book and the chapters are those the entries passed and
  the goroutines finished determine, whatever the order of the steps was.\<close>

definition tracks :: "env \<Rightarrow> Book \<Rightarrow> FileInfo list \<Rightarrow> pstate \<Rightarrow> bool" where
  "tracks E book fis s =
     ((case scannerPc s of
         Scanning k \<Rightarrow> theBook s = scannedBook E (take k fis) book
       | Waiting \<Rightarrow> theBook s = scannedBook E fis book
       | Finished \<Rightarrow> theBook s = scannedBook E fis book
       | ReturnedEarly e \<Rightarrow> True
       | Crashed e \<Rightarrow> True)
      \<and> sourceDir (theBook s) = sourceDir book \<and> Book.Title (theBook s) = Book.Title book
      \<and> (\<forall>j < length (workerPcs s).
            chapterOf E book (map FileInfo.Name (filter IsDir fis) ! j)
              (workerPcs s ! j) (chapterObjs s ! j)))"

section \<open>Notions the theorems are stated with\<close>

text \<open>The files of a chapter directory that \<^verbatim>\<open>parseChapter\<close> takes for articles, in the
  order of the listing: regular files with extension \<^verbatim>\<open>.md\<close> in any case, the index file
  left out.\<close>

definition articleFiles :: "env \<Rightarrow> FileInfo list \<Rightarrow> FileInfo list" where
  "articleFiles E fileInfos =
     filter (\<lambda>fi. \<not> IsDir fi \<and> IsRegular fi \<and> ToLower E (Ext E (FileInfo.Name fi)) = ''.md''
                 \<and> ToLower E (FileInfo.Name fi) \<noteq> ''000-index.md'') fileInfos"

section \<open>A sample environment\<close>

text \<open>
  A small book on a disk held in two association lists, with simple stand-ins for the
  functions of the environment. It is used to instantiate the theorems at concrete
  inputs; no theorem about the program depends on it.
\<close>

definition lower :: "char \<Rightarrow> char" where
  "lower c = (let n = (of_char c :: nat) in if 65 \<le> n \<and> n \<le> 90 then char_of (n + 32) else c)"

definition sampleFiles :: "(string \<times> string list) list" where
  "sampleFiles =
     [(''books/go/010-basics/000-index.md'', [''Title: Basics'', ''Id: 100'']),
      (''books/go/010-basics/010-intro.md'', [''Id: 42'', ''Title: Intro'', ''Body: hello'']),
      (''books/go/010-basics/020-snippet.MD'',
         [''Id: 43'', ''Title: Snippet'', ''Body: see'', ''@file snippets/x.go'']),
      (''books/go/010-basics/030-broken.md'',
         [''Id: 44'', ''Body: see'', ''@file snippets/missing.go'']),
      (''books/go/010-basics/snippets/x.go'', [''package main'', ''func main() {}'']),
      (''books/go/020-more/000-index.md'', [''Title: More'', ''Id: 200'']),
      (''books/go/020-more/010-html.md'', [''Id: 45'', ''Title: Html'', ''BodyHtml: <p>x</p>'']),
      (''books/go/020-more/020-tab.md'', [''Id: 4'' @ [CHR 0x09] @ ''6'', ''Title: Tab'', ''Body: b'']),
      (''books/go/020-more/030-space.md'', [''Id: 4 7'', ''Title: Space'', ''Body: b'']),
      (''books/go/020-more/040-nobody.md'', [''Id: 48'', ''Title: Nobody'']),
      (''books/go/030-space/000-index.md'', [''Title: Space'', ''Id: 30 0'']),
      (''books/go/050-untitled/000-index.md'', [''Id: 500''])]"

definition sampleDirs :: "(string \<times> FileInfo list) list" where
  "sampleDirs =
     [(''books/go'',
         [\<lparr>Name = ''010-basics'', IsDir = True, IsRegular = False\<rparr>,
          \<lparr>Name = ''020-more'', IsDir = True, IsRegular = False\<rparr>,
          \<lparr>Name = ''so_contributors.txt'', IsDir = False, IsRegular = True\<rparr>,
          \<lparr>Name = ''toc.txt'', IsDir = False, IsRegular = True\<rparr>]),
      (''books/go/010-basics'',
         [\<lparr>Name = ''000-index.md'', IsDir = False, IsRegular = True\<rparr>,
          \<lparr>Name = ''010-intro.md'', IsDir = False, IsRegular = True\<rparr>,
          \<lparr>Name = ''020-snippet.MD'', IsDir = False, IsRegular = True\<rparr>,
          \<lparr>Name = ''notes.txt'', IsDir = False, IsRegular = True\<rparr>,
          \<lparr>Name = ''snippets'', IsDir = True, IsRegular = False\<rparr>]),
      (''books/go/020-more'',
         [\<lparr>Name = ''000-index.md'', IsDir = False, IsRegular = True\<rparr>,
          \<lparr>Name = ''010-html.md'', IsDir = False, IsRegular = True\<rparr>])]"

text \<open>A line with a colon opens an entry; any other line is added to the value of the
  entry before it.\<close>

fun sampleTokens :: "string list \<Rightarrow> Doc \<Rightarrow> Doc" where
  "sampleTokens [] doc = doc"
| "sampleTokens (l # ls) doc =
     (if CHR '':'' \<in> set l then
        sampleTokens ls
          (doc @ [\<lparr>Key = takeWhile (\<lambda>c. c \<noteq> CHR '':'') l,
                    Value = drop 2 (dropWhile (\<lambda>c. c \<noteq> CHR '':'') l)\<rparr>])
      else
        (case rev doc of
           [] \<Rightarrow> sampleTokens ls doc
         | kv # earlier \<Rightarrow> sampleTokens ls (rev earlier @ [kv\<lparr>Value := Value kv @ nl @ l\<rparr>])))"

definition sampleRead :: "string \<Rightarrow> string list \<times> error option" where
  "sampleRead path =
     (case map_of sampleFiles path of
        Some lines \<Rightarrow> (lines, None)
      | None \<Rightarrow> ([], Some (Error (''open '' @ path @ '': no such file''))))"

definition sampleEnv :: env where
  "sampleEnv =
     \<lparr>ReadFileAsLines = sampleRead,
      extractCodeSnippetsAsMarkdownLines = (\<lambda>dir line. sampleRead (dir @ ''/'' @ drop 6 line)),
      ParseKVLines = (\<lambda>lines. (sampleTokens lines [], None)),
      ParseKVFile =
        (\<lambda>path. case sampleRead path of
                   (lines, None) \<Rightarrow> (sampleTokens lines [], None)
                 | (lines, Some e) \<Rightarrow> ([], Some e)),
      MakeURLSafe = map lower,
      ShortenString = take 20,
      maybePanicIfErr = (\<lambda>e. Some [''Error: '' @ message e @ nl]),
      ReadDir =
        (\<lambda>dir. case map_of sampleDirs dir of
                  Some fileInfos \<Rightarrow> (fileInfos, None)
                | None \<Rightarrow> ([], Some (Error (''open '' @ dir @ '': no such directory'')))),
      Join = (\<lambda>elems. Join_strings elems ''/''),
      Dir = (\<lambda>path. rev (drop 1 (dropWhile (\<lambda>c. c \<noteq> CHR ''/'') (rev path)))),
      Ext = (\<lambda>path. if CHR ''.'' \<in> set path
                     then CHR ''.'' # rev (takeWhile (\<lambda>c. c \<noteq> CHR ''.'') (rev path)) else ''''),
      ToLower = map lower,
      loadSoContributors =
        (\<lambda>path. Inr [\<lparr>SoContributor.ID = 7, URLPart = ''ann'', SoContributor.Name = ''Ann''\<rparr>]),
      getAlmostMaxProcs = 2,
      destEssentialDir = ''www/essential'',
      elapsed = ''1ms''\<rparr>"

text \<open>The book that \<^verbatim>\<open>parseBook("Go")\<close> must return on this disk, written out by hand.
  The three articles take their sibling list and their \<^verbatim>\<open>IsCurrent\<close> flag as arguments.\<close>

definition sampleIntro :: "Article list \<Rightarrow> bool \<Rightarrow> Article" where
  "sampleIntro siblings current =
     Article ''42'' 1 (Some ''010-basics'') ''Intro'' ''a-42-intro'' ''hello'' '''' siblings current
       ''books/go/010-basics/010-intro.md'' ''''"

definition sampleSnippet :: "Article list \<Rightarrow> bool \<Rightarrow> Article" where
  "sampleSnippet siblings current =
     Article ''43'' 2 (Some ''010-basics'') ''Snippet'' ''a-43-snippet''
       (''see'' @ nl @ ''package main'' @ nl @ ''func main() {}'') '''' siblings current
       ''books/go/010-basics/020-snippet.MD'' ''''"

definition sampleHtml :: "Article list \<Rightarrow> bool \<Rightarrow> Article" where
  "sampleHtml siblings current =
     Article ''45'' 1 (Some ''020-more'') ''Html'' ''a-45-html'' '''' ''<p>x</p>'' siblings current
       ''books/go/020-more/010-html.md'' ''''"

definition sampleChapters :: "Chapter list" where
  "sampleChapters =
     [\<lparr>Chapter.ID = ''100'', Book = Some ''Go'', ChapterDir = ''010-basics'',
       indexFilePath = ''books/go/010-basics/000-index.md'',
       indexDoc = [\<lparr>Key = ''Title'', Value = ''Basics''\<rparr>, \<lparr>Key = ''Id'', Value = ''100''\<rparr>],
       Chapter.Title = ''Basics'', Chapter.FileNameBase = ''ch-100-basics'',
       Articles =
         [sampleIntro [sampleIntro [] True, sampleSnippet [] False] False,
          sampleSnippet [sampleIntro [] False, sampleSnippet [] True] False],
       Chapter.No = 1, Chapter.AnalyticsCode = ''''\<rparr>,
      \<lparr>Chapter.ID = ''200'', Book = Some ''Go'', ChapterDir = ''020-more'',
       indexFilePath = ''books/go/020-more/000-index.md'',
       indexDoc = [\<lparr>Key = ''Title'', Value = ''More''\<rparr>, \<lparr>Key = ''Id'', Value = ''200''\<rparr>],
       Chapter.Title = ''More'', Chapter.FileNameBase = ''ch-200-more'',
       Articles = [sampleHtml [sampleHtml [] True] False],
       Chapter.No = 2, Chapter.AnalyticsCode = ''''\<rparr>,
      \<lparr>Chapter.ID = '''', Book = Some ''Go'', ChapterDir = '''', indexFilePath = '''',
       indexDoc =
         [\<lparr>Key = ''Body'',
           Value =
             ''Contributors from [GitHub](https://github.com/essentialbooks/books/graphs/contributors)''
             @ nl @ nl @ ''Contributors from Stack Overflow:''
             @ nl @ ''* [Ann](https://stackoverflow.com/users/7/Ann)''\<rparr>],
       Chapter.Title = ''Contributors'', Chapter.FileNameBase = ''ch-contributors'',
       Articles = [], Chapter.No = 3, Chapter.AnalyticsCode = ''''\<rparr>]"

definition sampleBook :: Book where
  "sampleBook =
     \<lparr>Book.Title = ''Go'', titleSafe = ''go'', TitleLong = ''Essential Go'',
      Book.FileNameBase = ''go'', Chapters = sampleChapters, sourceDir = ''books/go'',
      destDir = ''www/essential/go'',
      SoContributors = [\<lparr>SoContributor.ID = 7, URLPart = ''ann'', SoContributor.Name = ''Ann''\<rparr>],
      cachedArticlesCount = 6, defaultLang = '''',
      knownUrls = [''ch-100-basics'', ''a-42-intro'', ''a-43-snippet'', ''ch-200-more'',
                   ''a-45-html'', ''ch-contributors''],
      Book.AnalyticsCode = ''''\<rparr>"

text \<open>Two more books: in \<open>sampleTwins\<close> the second and third chapter share an identifier; in
  \<open>sampleRepeat\<close> the article \<^verbatim>\<open>42\<close> comes again in the second chapter, before another
  article.\<close>

definition sampleChapter :: "string \<Rightarrow> string \<Rightarrow> Article list \<Rightarrow> Chapter" where
  "sampleChapter ident title articles =
     \<lparr>Chapter.ID = ident, Book = Some ''Go'', ChapterDir = map lower title,
      indexFilePath = ''books/go/'' @ map lower title @ ''/000-index.md'', indexDoc = [],
      Chapter.Title = title, Chapter.FileNameBase = ''ch-'' @ ident @ ''-'' @ map lower title,
      Articles = articles, Chapter.No = 0, Chapter.AnalyticsCode = ''''\<rparr>"

definition sampleTwins :: Book where
  "sampleTwins = sampleBook\<lparr>Chapters :=
     [sampleChapter ''100'' ''Basics'' [], sampleChapter ''200'' ''More'' [],
      sampleChapter ''200'' ''Extra'' []], knownUrls := []\<rparr>"

definition sampleRepeat :: Book where
  "sampleRepeat = sampleBook\<lparr>Chapters :=
     [sampleChapter ''100'' ''Basics'' [sampleIntro [] False, sampleSnippet [] False],
      sampleChapter ''200'' ''More'' [sampleIntro [] False, sampleHtml [] False]], knownUrls := []\<rparr>"

text \<open>In \<open>sampleRepeatTwins\<close> the chapters of \<open>sampleRepeat\<close> are followed by a chapter that takes
  the identifier \<^verbatim>\<open>200\<close> again. \<open>strictEnv\<close> is the sample environment with a
  \<^verbatim>\<open>maybePanicIfErr\<close> that panics on every error.\<close>

definition sampleRepeatTwins :: Book where
  "sampleRepeatTwins =
     sampleRepeat\<lparr>Chapters := Chapters sampleRepeat @ [sampleChapter ''200'' ''Extra'' []]\<rparr>"

definition strictEnv :: env where
  "strictEnv = sampleEnv\<lparr>maybePanicIfErr := (\<lambda>e. None)\<rparr>"

text \<open>
  The same disk with another content of \<^verbatim>\<open>books/go\<close>: the chapter directories \<^verbatim>\<open>020-more\<close>
  and \<^verbatim>\<open>030-space\<close>, listed in the order of their names as \<^verbatim>\<open>ioutil.ReadDir\<close> does; the
  index file of \<^verbatim>\<open>030-space\<close> has the identifier \<^verbatim>\<open>30 0\<close>. \<open>raceState\<close> is a state of
  \<^verbatim>\<open>parseBook("Go")\<close> with these two chapters started: where \<^verbatim>\<open>parseBook\<close> is, where the
  two goroutines are, the chapters as they stand, the channel, the wait group and
  \<^verbatim>\<open>err\<close>; \<^verbatim>\<open>err2\<close> is \<^verbatim>\<open>nil\<close>.
\<close>

definition raceEnv :: env where
  "raceEnv = sampleEnv\<lparr>ReadDir :=
     (\<lambda>dir. if dir = ''books/go''
             then ([\<lparr>Name = ''020-more'', IsDir = True, IsRegular = False\<rparr>,
                    \<lparr>Name = ''030-space'', IsDir = True, IsRegular = False\<rparr>], None)
             else ReadDir sampleEnv dir)\<rparr>"

definition spaceChapter :: Chapter where
  "spaceChapter =
     (newChapter (newBook raceEnv ''Go'') ''030-space'')
       \<lparr>indexFilePath := ''books/go/030-space/000-index.md'',
        indexDoc := [\<lparr>Key = ''Title'', Value = ''Space''\<rparr>, \<lparr>Key = ''Id'', Value = ''30 0''\<rparr>],
        Chapter.Title := ''Space'', Chapter.ID := ''30 0''\<rparr>"

definition spaceError :: error where
  "spaceError =
     Error (''parseChapter('' @ sq @ ''books/go/030-space/000-index.md'' @ sq
            @ ''), chapter.ID = '' @ sq @ ''30 0'' @ sq @ '' has space in it'')"

definition moreChapter :: Chapter where
  "moreChapter = (sampleChapters ! 1)\<lparr>Chapter.No := 0\<rparr>"

definition raceState :: "scanner \<Rightarrow> worker \<times> Chapter \<Rightarrow> worker \<times> Chapter \<Rightarrow> nat \<Rightarrow> nat
    \<Rightarrow> error option \<Rightarrow> pstate" where
  "raceState pc w0 w1 sem wg err =
     \<lparr>scannerPc = pc, theBook = newBook raceEnv ''Go'', chapterObjs = [snd w0, snd w1],
      workerPcs = [fst w0, fst w1], semCount = sem, wgCount = wg, errVar = err, err2Var = None\<rparr>"

text \<open>The state of that run past the barrier, and the test that a call has returned a
  book with a \<^verbatim>\<open>nil\<close> error.\<close>

definition raceFinal :: pstate where
  "raceFinal = raceState Finished (Done, moreChapter) (Done, spaceChapter) 0 0 None"

definition returnedBookAndNil :: "(Book option \<times> error option) outcome \<Rightarrow> bool" where
  "returnedBookAndNil r = (case r of Returned (Some book, None) \<Rightarrow> True | _ \<Rightarrow> False)"

text \<open>The book returned at the end of that run.\<close>

definition raceBook :: Book where
  "raceBook =
     (case returnAfterBarrier raceEnv ''Go'' raceFinal of
        Returned (Some book, e) \<Rightarrow> book
      | _ \<Rightarrow> newBook raceEnv ''Go'')"

text \<open>The schedule of that run: the loop starts both goroutines and goes to \<^verbatim>\<open>wg.Wait()\<close>;
  the goroutine of \<^verbatim>\<open>030-space\<close> assigns \<^verbatim>\<open>err\<close>, then the goroutine of \<^verbatim>\<open>020-more\<close> does;
  both test \<^verbatim>\<open>err\<close>; both leave; the loop passes the barrier.\<close>

definition raceSchedule :: "thread list" where
  "raceSchedule =
     [Loop, Loop, Loop,
      Goroutine 1, Goroutine 0,
      Goroutine 1, Goroutine 0,
      Goroutine 1, Goroutine 1, Goroutine 0, Goroutine 0,
      Loop]"

text \<open>
  A third content of \<^verbatim>\<open>books/go\<close>: the chapter directories \<^verbatim>\<open>020-more\<close> and
  \<^verbatim>\<open>050-untitled\<close>, whose index file has an \<^verbatim>\<open>Id\<close> and no \<^verbatim>\<open>Title\<close>. \<open>untitledChapter\<close> is
  the chapter as \<^verbatim>\<open>parseChapter\<close> leaves it when it returns \<open>untitledError\<close>: the index path
  and document are set, the title and the identifier are empty.
\<close>

definition untitledEnv :: env where
  "untitledEnv = sampleEnv\<lparr>ReadDir :=
     (\<lambda>dir. if dir = ''books/go''
             then ([\<lparr>Name = ''020-more'', IsDir = True, IsRegular = False\<rparr>,
                    \<lparr>Name = ''050-untitled'', IsDir = True, IsRegular = False\<rparr>], None)
             else ReadDir sampleEnv dir)\<rparr>"

definition untitledChapter :: Chapter where
  "untitledChapter =
     (newChapter (newBook untitledEnv ''Go'') ''050-untitled'')
       \<lparr>indexFilePath := ''books/go/050-untitled/000-index.md'',
        indexDoc := [\<lparr>Key = ''Id'', Value = ''500''\<rparr>]\<rparr>"

definition untitledError :: error where
  "untitledError =
     Error (''parseChapter('' @ sq @ ''books/go/050-untitled/000-index.md'' @ sq
            @ ''), missing Title, err: '' @ sq @ ''key '' @ sq @ ''Title'' @ sq @ '' not found'' @ sq)"

text \<open>A run on that disk, one goroutine after the other, and the state it ends in.\<close>

definition untitledSchedule :: "thread list" where
  "untitledSchedule =
     [Loop, Loop, Loop,
      Goroutine 0, Goroutine 0, Goroutine 0, Goroutine 0,
      Goroutine 1, Goroutine 1, Goroutine 1, Goroutine 1, Goroutine 1,
      Loop]"

definition untitledFinal :: pstate where
  "untitledFinal =
     \<lparr>scannerPc = Finished, theBook = newBook untitledEnv ''Go'',
      chapterObjs = [moreChapter, untitledChapter], workerPcs = [Done, Done],
      semCount = 0, wgCount = 0, errVar = Some untitledError, err2Var = Some untitledError\<rparr>"

section \<open>Field assignments and sibling lists: basic facts\<close>

lemma set_No_sel [simp]:
  "Article.ID (set_No n a) = Article.ID a"
  "Article.No (set_No n a) = n"
  "Article.Chapter (set_No n a) = Article.Chapter a"
  "Article.Title (set_No n a) = Article.Title a"
  "Article.FileNameBase (set_No n a) = Article.FileNameBase a"
  "Siblings (set_No n a) = Siblings a"
  "IsCurrent (set_No n a) = IsCurrent a"
  "sourceFilePath (set_No n a) = sourceFilePath a"
  by (cases a; simp)+

lemma set_IsCurrent_sel [simp]:
  "Article.ID (set_IsCurrent b a) = Article.ID a"
  "Article.No (set_IsCurrent b a) = Article.No a"
  "Siblings (set_IsCurrent b a) = Siblings a"
  "IsCurrent (set_IsCurrent b a) = b"
  by (cases a; simp)+

lemma set_Siblings_sel [simp]:
  "Article.ID (set_Siblings s a) = Article.ID a"
  "Article.No (set_Siblings s a) = Article.No a"
  "Article.FileNameBase (set_Siblings s a) = Article.FileNameBase a"
  "Siblings (set_Siblings s a) = s"
  "IsCurrent (set_Siblings s a) = IsCurrent a"
  "sourceFilePath (set_Siblings s a) = sourceFilePath a"
  by (cases a; simp)+

lemma set_Chapter_sel [simp]:
  "Article.ID (set_Chapter c a) = Article.ID a"
  "Article.No (set_Chapter c a) = Article.No a"
  "Article.Chapter (set_Chapter c a) = c"
  "Article.FileNameBase (set_Chapter c a) = Article.FileNameBase a"
  "Siblings (set_Chapter c a) = Siblings a"
  "IsCurrent (set_Chapter c a) = IsCurrent a"
  "sourceFilePath (set_Chapter c a) = sourceFilePath a"
  by (cases a; simp)+

lemma fold_template:
  "fold (\<lambda>(i, article) siblings. siblings @ [set_No (int i + 1) article]) (enumerate k articles) acc
     = acc @ map (\<lambda>(i, article). set_No (int i + 1) article) (enumerate k articles)"
  by (induction articles arbitrary: k acc) simp_all

lemma siblings_template_map:
  "siblings_template articles = map (\<lambda>(i, article). set_No (int i + 1) article) (enumerate 0 articles)"
  by (simp add: siblings_template_def fold_template)

lemma length_siblings_template [simp]: "length (siblings_template articles) = length articles"
  by (simp add: siblings_template_map)

lemma nth_siblings_template:
  "i < length articles \<Longrightarrow> siblings_template articles ! i = set_No (int i + 1) (articles ! i)"
  by (simp add: siblings_template_map nth_enumerate_eq)

lemma length_buildArticleSiblings [simp]:
  "length (buildArticleSiblings articles) = length articles"
  by (simp add: buildArticleSiblings_def Let_def)

lemma nth_buildArticleSiblings:
  "i < length articles \<Longrightarrow>
   buildArticleSiblings articles ! i =
     set_Siblings ((siblings_template articles)[i := set_IsCurrent True (siblings_template articles ! i)])
       (articles ! i)"
  by (simp add: buildArticleSiblings_def Let_def nth_enumerate_eq)

lemma buildArticleSiblings_current:
  assumes "\<forall>a \<in> set articles. \<not> IsCurrent a" and "i < length articles" and "j < length articles"
  shows "IsCurrent (Siblings (buildArticleSiblings articles ! i) ! j) \<longleftrightarrow> j = i"
  using assms by (auto simp: nth_buildArticleSiblings nth_siblings_template nth_list_update)

lemma buildArticleSiblings_length_siblings:
  "i < length articles \<Longrightarrow> length (Siblings (buildArticleSiblings articles ! i)) = length articles"
  by (simp add: nth_buildArticleSiblings)

lemma buildArticleSiblings_self:
  "i < length articles \<Longrightarrow>
   Siblings (buildArticleSiblings articles ! i) ! i = set_IsCurrent True (set_No (int i + 1) (articles ! i))"
  by (simp add: nth_buildArticleSiblings nth_siblings_template)

section \<open>Parsing articles and chapters\<close>

lemma newArticle_sel [simp]:
  "Article.ID (newArticle path ident title fnb bm bh) = ident"
  "Article.No (newArticle path ident title fnb bm bh) = 0"
  "Article.Title (newArticle path ident title fnb bm bh) = title"
  "Article.FileNameBase (newArticle path ident title fnb bm bh) = fnb"
  "BodyMarkdown (newArticle path ident title fnb bm bh) = bm"
  "BodyHTML (newArticle path ident title fnb bm bh) = bh"
  "Siblings (newArticle path ident title fnb bm bh) = []"
  "IsCurrent (newArticle path ident title fnb bm bh) = False"
  "sourceFilePath (newArticle path ident title fnb bm bh) = path"
  by (simp_all add: newArticle_def)

lemma parseArticle_Inr:
  assumes "parseArticle E path = (Returned (Inr a), out)"
  shows "\<not> IsCurrent a" and "Siblings a = []" and "sourceFilePath a = path"
    and "\<not> Contains_space (Article.ID a)"
    and "Article.FileNameBase a = ''a-'' @ Article.ID a @ ''-'' @ MakeURLSafe E (Article.Title a)"
  using assms
  by (auto simp: parseArticle_def Let_def split: prod.splits option.splits if_splits)

lemma parseArticles_Inr:
  assumes "parseArticles E dir cd fis acc = (Returned (Inr articles), out)"
  shows "\<exists>new. articles = acc @ new
     \<and> (\<forall>a \<in> set new. \<not> IsCurrent a \<and> Siblings a = [] \<and> \<not> Contains_space (Article.ID a))
     \<and> map Article.No new = map int [Suc (length acc)..<Suc (length articles)]
     \<and> map sourceFilePath new =
         map (\<lambda>fi. Join E [dir, FileInfo.Name fi])
           (filter (\<lambda>fi. \<not> (IsDir fi \<or> \<not> IsRegular fi) \<and> ToLower E (Ext E (FileInfo.Name fi)) = ''.md''
                       \<and> ToLower E (FileInfo.Name fi) \<noteq> ''000-index.md'') fis)"
  using assms
proof (induction fis arbitrary: acc out)
  case Nil
  then show ?case by simp
next
  case (Cons fi fis)
  show ?case
  proof (cases "\<not> (IsDir fi \<or> \<not> IsRegular fi) \<and> ToLower E (Ext E (FileInfo.Name fi)) = ''.md''
                       \<and> ToLower E (FileInfo.Name fi) \<noteq> ''000-index.md''")
    case False
    then have "parseArticles E dir cd fis acc = (Returned (Inr articles), out)"
      using Cons.prems by (auto split: if_splits)
    from Cons.IH [OF this] False show ?thesis by auto
  next
    case True
    then obtain a out1 out2 where pa: "parseArticle E (Join E [dir, FileInfo.Name fi]) = (Returned (Inr a), out1)"
      and rest: "parseArticles E dir cd fis
         (acc @ [set_No (int (length acc) + 1) (set_Chapter (Some cd) a)]) = (Returned (Inr articles), out2)"
      using Cons.prems
      by (auto simp: Let_def after_output_def split: prod.splits outcome.splits sum.splits)
        (metis prod.collapse)
    from Cons.IH [OF rest] obtain new where new: "articles = (acc @ [set_No (int (length acc) + 1) (set_Chapter (Some cd) a)]) @ new"
      "\<forall>a \<in> set new. \<not> IsCurrent a \<and> Siblings a = [] \<and> \<not> Contains_space (Article.ID a)"
      "map Article.No new = map int [Suc (Suc (length acc))..<Suc (length articles)]"
      "map sourceFilePath new =
         map (\<lambda>fi. Join E [dir, FileInfo.Name fi])
           (filter (\<lambda>fi. \<not> (IsDir fi \<or> \<not> IsRegular fi) \<and> ToLower E (Ext E (FileInfo.Name fi)) = ''.md''
                       \<and> ToLower E (FileInfo.Name fi) \<noteq> ''000-index.md'') fis)"
      by auto
    have len: "Suc (length acc) < Suc (length articles)" using new(1) by simp
    have "[Suc (length acc)..<Suc (length articles)] = Suc (length acc) # [Suc (Suc (length acc))..<Suc (length articles)]"
      using len by (simp add: upt_conv_Cons)
    then show ?thesis
      using new True parseArticle_Inr [OF pa]
      by (intro exI [of _ "set_No (int (length acc) + 1) (set_Chapter (Some cd) a) # new"]) simp
  qed
qed

lemma articleFiles_filter:
  "filter (\<lambda>fi. \<not> (IsDir fi \<or> \<not> IsRegular fi) \<and> ToLower E (Ext E (FileInfo.Name fi)) = ''.md''
                       \<and> ToLower E (FileInfo.Name fi) \<noteq> ''000-index.md'') fis = articleFiles E fis"
  by (simp add: articleFiles_def)

lemma map_buildArticleSiblings:
  assumes "\<And>s a. f (set_Siblings s a) = f a"
  shows "map f (buildArticleSiblings articles) = map f articles"
  by (rule nth_equalityI) (simp_all add: nth_buildArticleSiblings assms)

lemma parseChapterDoc_fields:
  assumes "parseChapterDoc E dir path doc chapter = (Returned (c, err), out)"
  shows "ChapterDir c = ChapterDir chapter" and "indexFilePath c = indexFilePath chapter"
    and "Chapter.Book c = Chapter.Book chapter"
  using assms
  by (auto simp: parseChapterDoc_def Let_def split: prod.splits option.splits if_splits outcome.splits sum.splits)

lemma parseChapterDoc_failed:
  assumes "parseChapterDoc E dir path doc chapter = (Returned (c, Some e), out)"
  shows "Articles c = Articles chapter"
  using assms
  by (auto simp: parseChapterDoc_def Let_def split: prod.splits option.splits if_splits outcome.splits sum.splits)

lemma parseChapterDoc_parsed:
  assumes "parseChapterDoc E dir path doc chapter = (Returned (c, None), out)"
  shows "\<exists>articles. Articles c = buildArticleSiblings articles
     \<and> (\<forall>a \<in> set articles. \<not> IsCurrent a \<and> Siblings a = [] \<and> \<not> Contains_space (Article.ID a))
     \<and> map Article.No articles = map int [1..<Suc (length articles)]
     \<and> map sourceFilePath articles =
         map (\<lambda>fi. Join E [dir, FileInfo.Name fi]) (articleFiles E (fst (ReadDir E dir)))"
    and "\<not> Contains_space (Chapter.ID c)"
    and "Chapter.FileNameBase c = ''ch-'' @ Chapter.ID c @ ''-'' @ MakeURLSafe E (Chapter.Title c)"
proof -
  from assms obtain articles out' where
    pa: "parseArticles E dir (ChapterDir chapter) (fst (ReadDir E dir)) [] = (Returned (Inr articles), out')"
    and c: "Articles c = buildArticleSiblings articles"
    by (auto simp: parseChapterDoc_def Let_def split: prod.splits option.splits if_splits outcome.splits sum.splits)
  from parseArticles_Inr [OF pa] c
  show "\<exists>articles. Articles c = buildArticleSiblings articles
     \<and> (\<forall>a \<in> set articles. \<not> IsCurrent a \<and> Siblings a = [] \<and> \<not> Contains_space (Article.ID a))
     \<and> map Article.No articles = map int [1..<Suc (length articles)]
     \<and> map sourceFilePath articles =
         map (\<lambda>fi. Join E [dir, FileInfo.Name fi]) (articleFiles E (fst (ReadDir E dir)))"
    by (intro exI [of _ articles]) (simp add: articleFiles_def del: upt_Suc)
  from assms show "\<not> Contains_space (Chapter.ID c)"
    by (auto simp: parseChapterDoc_def Let_def split: prod.splits option.splits if_splits outcome.splits sum.splits)
  from assms show "Chapter.FileNameBase c = ''ch-'' @ Chapter.ID c @ ''-'' @ MakeURLSafe E (Chapter.Title c)"
    by (auto simp: parseChapterDoc_def Let_def split: prod.splits option.splits if_splits outcome.splits sum.splits)
qed

lemma parseChapter_cases:
  assumes "parseChapter E book chapter = (Returned (c, err), out)"
  obtains doc out' where
    "parseChapterDoc E (Join E [sourceDir book, ChapterDir chapter])
       (Join E [Join E [sourceDir book, ChapterDir chapter], ''000-index.md'']) doc
       (chapter\<lparr>indexFilePath := Join E [Join E [sourceDir book, ChapterDir chapter], ''000-index.md'']\<rparr>)
     = (Returned (c, err), out')"
  using assms
  by (auto simp: parseChapter_def Let_def after_output_def split: prod.splits option.splits)
    (metis prod.collapse)+

text \<open>What \<^verbatim>\<open>parseChapter\<close> leaves in a chapter that started without articles.\<close>

lemma parseChapter_articles:
  assumes "parseChapter E book chapter = (Returned (c, err), out)" and "Articles chapter = []"
  shows "\<exists>articles. Articles c = buildArticleSiblings articles
     \<and> (\<forall>a \<in> set articles. \<not> IsCurrent a \<and> Siblings a = [] \<and> \<not> Contains_space (Article.ID a))
     \<and> map Article.No articles = map int [1..<Suc (length articles)]
     \<and> (articles = [] \<or> map sourceFilePath articles =
         map (\<lambda>fi. Join E [Join E [sourceDir book, ChapterDir chapter], FileInfo.Name fi])
           (articleFiles E (fst (ReadDir E (Join E [sourceDir book, ChapterDir chapter])))))"
proof -
  from assms(1) obtain doc out' where
    d: "parseChapterDoc E (Join E [sourceDir book, ChapterDir chapter])
       (Join E [Join E [sourceDir book, ChapterDir chapter], ''000-index.md'']) doc
       (chapter\<lparr>indexFilePath := Join E [Join E [sourceDir book, ChapterDir chapter], ''000-index.md'']\<rparr>)
     = (Returned (c, err), out')"
    by (rule parseChapter_cases)
  show ?thesis
  proof (cases err)
    case None
    with parseChapterDoc_parsed(1) [of E _ _ doc _ c out'] d show ?thesis by blast
  next
    case (Some e)
    with parseChapterDoc_failed [of E _ _ doc _ c e out'] d assms(2)
    have "Articles c = []" by simp
    then show ?thesis
      by (intro exI [of _ "[]"]) (simp add: buildArticleSiblings_def siblings_template_def)
  qed
qed

lemma parseChapter_fields:
  assumes "parseChapter E book chapter = (Returned (c, err), out)"
  shows "ChapterDir c = ChapterDir chapter"
    and "indexFilePath c = Join E [Join E [sourceDir book, ChapterDir chapter], ''000-index.md'']"
    and "err = None \<Longrightarrow> \<not> Contains_space (Chapter.ID c)"
proof -
  from assms(1) obtain doc out' where
    d: "parseChapterDoc E (Join E [sourceDir book, ChapterDir chapter])
       (Join E [Join E [sourceDir book, ChapterDir chapter], ''000-index.md'']) doc
       (chapter\<lparr>indexFilePath := Join E [Join E [sourceDir book, ChapterDir chapter], ''000-index.md'']\<rparr>)
     = (Returned (c, err), out')"
    by (rule parseChapter_cases)
  from parseChapterDoc_fields [OF d] show "ChapterDir c = ChapterDir chapter"
    and "indexFilePath c = Join E [Join E [sourceDir book, ChapterDir chapter], ''000-index.md'']"
    by simp_all
  show "err = None \<Longrightarrow> \<not> Contains_space (Chapter.ID c)"
    using parseChapterDoc_parsed(2) d by blast
qed

section \<open>Parsing a book: what the chapters of the result are\<close>

lemma newChapter_sel [simp]:
  "Articles (newChapter book name) = []" "ChapterDir (newChapter book name) = name"
  by (simp_all add: newChapter_def)

lemma scanTopLevel_Inr:
  assumes "scanTopLevel E srcDir fis book chapters err2 = (Returned (Inr (book', chapters', err2')), out)"
  shows "\<exists>new. chapters' = chapters @ new
     \<and> map ChapterDir new = map FileInfo.Name (filter IsDir fis)
     \<and> (\<forall>c \<in> set new. \<exists>b err out. sourceDir b = sourceDir book
            \<and> parseChapter E b (newChapter b (ChapterDir c)) = (Returned (c, err), out))"
    and "sourceDir book' = sourceDir book"
  using assms
proof (induction fis arbitrary: book chapters err2 out)
  case Nil
  { case 1 then show ?case by simp }
  { case 2 then show ?case by simp }
next
  case (Cons fi fis)
  {
    case 1
    show ?case
    proof (cases "IsDir fi")
      case True
      with 1 obtain ch err out1 out2 where
        pc: "parseChapter E book (newChapter book (FileInfo.Name fi)) = (Returned (ch, err), out1)"
        and rest: "scanTopLevel E srcDir fis book (chapters @ [ch])
                    (case err of None \<Rightarrow> err2 | Some e \<Rightarrow> Some e) = (Returned (Inr (book', chapters', err2')), out2)"
        by (auto simp: after_output_def split: prod.splits outcome.splits) (metis prod.collapse)
      from Cons.IH(1) [OF rest] obtain new where new: "chapters' = (chapters @ [ch]) @ new"
        "map ChapterDir new = map FileInfo.Name (filter IsDir fis)"
        "\<forall>c \<in> set new. \<exists>b err out. sourceDir b = sourceDir book
            \<and> parseChapter E b (newChapter b (ChapterDir c)) = (Returned (c, err), out)"
        by blast
      have cd: "ChapterDir ch = FileInfo.Name fi"
        using parseChapter_fields(1) [OF pc] by simp
      show ?thesis
        using new True cd pc
        by (intro exI [of _ "ch # new"]) auto
    next
      case False
      show ?thesis
      proof (cases "ToLower E (FileInfo.Name fi) = ''toc.txt''")
        case True
        with False 1 have "scanTopLevel E srcDir fis book chapters err2 = (Returned (Inr (book', chapters', err2')), out)"
          by (simp add: Let_def)
        from Cons.IH(1) [OF this] False show ?thesis by simp
      next
        case nt: False
        with False 1 obtain cs where
          rest: "scanTopLevel E srcDir fis (book\<lparr>SoContributors := cs\<rparr>) chapters err2 = (Returned (Inr (book', chapters', err2')), out)"
          by (auto simp: Let_def split: if_splits sum.splits)
        from Cons.IH(1) [OF rest] False show ?thesis by simp
      qed
    qed
  }
  {
    case 2
    show ?case
    proof (cases "IsDir fi")
      case True
      with 2 obtain ch err out1 out2 where
        rest: "scanTopLevel E srcDir fis book (chapters @ [ch])
                    (case err of None \<Rightarrow> err2 | Some e \<Rightarrow> Some e) = (Returned (Inr (book', chapters', err2')), out2)"
        by (auto simp: after_output_def split: prod.splits outcome.splits) (metis prod.collapse)
      from Cons.IH(2) [OF rest] show ?thesis .
    next
      case False
      show ?thesis
      proof (cases "ToLower E (FileInfo.Name fi) = ''toc.txt''")
        case True
        with False 2 have "scanTopLevel E srcDir fis book chapters err2 = (Returned (Inr (book', chapters', err2')), out)"
          by (simp add: Let_def)
        from Cons.IH(2) [OF this] show ?thesis .
      next
        case nt: False
        with False 2 obtain cs where
          rest: "scanTopLevel E srcDir fis (book\<lparr>SoContributors := cs\<rparr>) chapters err2 = (Returned (Inr (book', chapters', err2')), out)"
          by (auto simp: Let_def split: if_splits sum.splits)
        from Cons.IH(2) [OF rest] show ?thesis by simp
      qed
    qed
  }
qed

lemma length_numberChapters [simp]: "length (numberChapters chapters) = length chapters"
  by (simp add: numberChapters_def)

lemma nth_numberChapters:
  "i < length chapters \<Longrightarrow> numberChapters chapters ! i = (chapters ! i)\<lparr>Chapter.No := int i + 1\<rparr>"
  by (simp add: numberChapters_def nth_enumerate_eq)

lemma map_No_numberChapters:
  "map Chapter.No (numberChapters chapters) = map int [1..<Suc (length chapters)]"
  by (rule nth_equalityI) (simp_all add: nth_numberChapters del: upt_Suc)

lemma map_numberChapters:
  assumes "\<And>n c. f (c\<lparr>Chapter.No := n\<rparr>) = f c"
  shows "map f (numberChapters chapters) = map f chapters"
  by (rule nth_equalityI) (simp_all add: nth_numberChapters assms)

lemma ensureUniqueIds_Returned:
  assumes "ensureUniqueIds E book = (Returned book', out)"
  shows "\<exists>urls. book' = book\<lparr>knownUrls := urls\<rparr>"
  using assms by (auto simp: ensureUniqueIds_def split: prod.splits outcome.splits)

lemma ArticlesCount_Chapters: "Chapters (snd (ArticlesCount b)) = Chapters b"
  by (simp add: ArticlesCount_def Let_def)

lemma parseBook_Some:
  assumes "parseBook E bookName = (Returned (Some book, err2), out)"
  obtains fileInfos book0 book1 chapters out1 where
    "ReadDir E (Join E [''books'', MakeURLSafe E bookName]) = (fileInfos, None)"
    "sourceDir book0 = Join E [''books'', MakeURLSafe E bookName]"
    "scanTopLevel E (Join E [''books'', MakeURLSafe E bookName]) fileInfos book0 [] None
       = (Returned (Inr (book1, chapters, err2)), out1)"
    "Chapters book = numberChapters (chapters @ [genContributorsChapter book1])"
    "genContributorsChapter book1 = genContributorsChapter book"
proof -
  let ?src = "Join E [''books'', MakeURLSafe E bookName]"
  let ?b0 = "newBook E bookName"
  have src: "sourceDir ?b0 = ?src" by (simp add: newBook_def Let_def)
  from assms obtain fileInfos where rd: "ReadDir E ?src = (fileInfos, None)"
    by (auto simp: parseBook_def src Let_def split: prod.splits option.splits)
  from assms rd obtain book1 chapters out1 where
    sc: "scanTopLevel E ?src fileInfos ?b0 [] None = (Returned (Inr (book1, chapters, err2)), out1)"
    by (auto simp: parseBook_def src Let_def after_output_def afterBarrier_def
        split: prod.splits outcome.splits sum.splits)
  from assms rd sc obtain book2 out2 where
    eu: "ensureUniqueIds E (book1\<lparr>Chapters := numberChapters (chapters @ [genContributorsChapter book1])\<rparr>)
          = (Returned book2, out2)"
    and bk: "book = snd (ArticlesCount book2)"
    by (auto simp: parseBook_def src Let_def after_output_def afterBarrier_def
        split: prod.splits outcome.splits sum.splits)
  from ensureUniqueIds_Returned [OF eu] bk
  have "Chapters book = numberChapters (chapters @ [genContributorsChapter book1])"
    by (auto simp: ArticlesCount_Chapters)
  moreover from ensureUniqueIds_Returned [OF eu] bk
  have "genContributorsChapter book1 = genContributorsChapter book"
    by (auto simp: ArticlesCount_def genContributorsChapter_def Let_def)
  ultimately show thesis
    using rd sc src by (intro that [of fileInfos ?b0 book1 chapters out1]) simp_all
qed

lemma sampleBook_parsed: "fst (parseBook sampleEnv ''Go'') = Returned (Some sampleBook, None)"
  by code_simp

lemma set_No_same: "Article.No a = n \<Longrightarrow> set_No n a = a"
  by (cases a) simp

lemma set_Siblings_same: "Siblings a = s \<Longrightarrow> set_Siblings s a = a"
  by (cases a) simp

lemma set_Siblings_twice [simp]: "set_Siblings s (set_Siblings t a) = set_Siblings s a"
  by (cases a) simp

lemma set_IsCurrent_Siblings: "set_IsCurrent b (set_Siblings s a) = set_Siblings s (set_IsCurrent b a)"
  by (cases a) simp

lemma parseBook_chapter_cases:
  assumes "parseBook E bookName = (Returned (Some book, err2), out)" and "c \<in> set (Chapters book)"
  obtains (parsed) b x err out' n where
      "parseChapter E b (newChapter b (ChapterDir c)) = (Returned (x, err), out')"
      "sourceDir b = Join E [''books'', MakeURLSafe E bookName]"
      "c = x\<lparr>Chapter.No := n\<rparr>"
    | (contributors) b n where "c = (genContributorsChapter b)\<lparr>Chapter.No := n\<rparr>"
proof -
  from assms(1) obtain fileInfos book0 book1 chapters out1 where
    src: "sourceDir book0 = Join E [''books'', MakeURLSafe E bookName]" and
    sc: "scanTopLevel E (Join E [''books'', MakeURLSafe E bookName]) fileInfos book0 [] None
       = (Returned (Inr (book1, chapters, err2)), out1)" and
    ch: "Chapters book = numberChapters (chapters @ [genContributorsChapter book1])"
    by (rule parseBook_Some)
  let ?cs = "chapters @ [genContributorsChapter book1]"
  from assms(2) ch obtain i where i: "i < length ?cs" "c = numberChapters ?cs ! i"
    by (metis in_set_conv_nth length_numberChapters)
  then have c: "c = (?cs ! i)\<lparr>Chapter.No := int i + 1\<rparr>"
    by (simp add: nth_numberChapters)
  show thesis
  proof (cases "i < length chapters")
    case True
    then have mem: "chapters ! i \<in> set chapters" by simp
    from scanTopLevel_Inr(1) [OF sc] mem obtain b err out' where
      "sourceDir b = sourceDir book0"
      "parseChapter E b (newChapter b (ChapterDir (chapters ! i))) = (Returned (chapters ! i, err), out')"
      by auto
    with True c src show thesis
      by (intro parsed [where b = b and x = "chapters ! i" and err = err and out' = out' and n = "int i + 1"])
        (simp_all add: nth_append)
  next
    case False
    with i(1) have "i = length chapters" by simp
    with c show thesis
      by (intro contributors [where b = book1 and n = "int i + 1"]) simp
  qed
qed

lemma Articles_genContributorsChapter [simp]: "Articles (genContributorsChapter b) = []"
  by (simp add: genContributorsChapter_def Let_def)

lemma siblings_of_built:
  assumes "\<forall>a \<in> set articles. \<not> IsCurrent a \<and> Siblings a = []"
    and "map Article.No articles = map int [1..<Suc (length articles)]"
    and "i < length articles"
  shows "length (Siblings (buildArticleSiblings articles ! i)) = length articles"
    and "\<forall>j < length articles. IsCurrent (Siblings (buildArticleSiblings articles ! i) ! j) \<longleftrightarrow> j = i"
    and "Siblings (buildArticleSiblings articles ! i) ! i
           = set_IsCurrent True (set_Siblings [] (buildArticleSiblings articles ! i))"
proof -
  show "length (Siblings (buildArticleSiblings articles ! i)) = length articles"
    using assms(3) by (rule buildArticleSiblings_length_siblings)
  show "\<forall>j < length articles. IsCurrent (Siblings (buildArticleSiblings articles ! i) ! j) \<longleftrightarrow> j = i"
    using assms(1,3) buildArticleSiblings_current by blast
  have "Article.No (articles ! i) = int i + 1"
  proof -
    have "map Article.No articles ! i = map int [1..<Suc (length articles)] ! i"
      using assms(2) by simp
    then show ?thesis using assms(3) by (simp del: upt_Suc)
  qed
  then have no: "set_No (int i + 1) (articles ! i) = articles ! i"
    by (rule set_No_same)
  have sib: "set_Siblings [] (articles ! i) = articles ! i"
    using assms(1,3) by (intro set_Siblings_same) simp
  show "Siblings (buildArticleSiblings articles ! i) ! i
           = set_IsCurrent True (set_Siblings [] (buildArticleSiblings articles ! i))"
    using assms(3) by (simp add: nth_siblings_template no nth_buildArticleSiblings sib)
qed

lemma map_Article_buildArticleSiblings [simp]:
  "map Article.No (buildArticleSiblings articles) = map Article.No articles"
  "map sourceFilePath (buildArticleSiblings articles) = map sourceFilePath articles"
  "map Article.ID (buildArticleSiblings articles) = map Article.ID articles"
  "map Article.FileNameBase (buildArticleSiblings articles) = map Article.FileNameBase articles"
  by (simp_all add: map_buildArticleSiblings)

section \<open>Identifier validation\<close>

lemma firstOccurrences_Nil [simp]: "firstOccurrences earlier [] = []"
  by (simp add: firstOccurrences_def)

lemma firstOccurrences_Cons:
  "firstOccurrences earlier (a # articles) =
     (if Article.ID a \<in> set (map Article.ID earlier) then [] else [a])
     @ firstOccurrences (earlier @ [a]) articles"
  by (auto simp: firstOccurrences_def enumerate_Suc_eq [of 0] filter_map o_def split_def
      intro!: arg_cong [where f = "map snd"] filter_cong)

lemma repeatedErrors_Nil [simp]: "repeatedErrors earlier [] = []"
  by (simp add: repeatedErrors_def)

lemma repeatedErrors_Cons:
  "repeatedErrors earlier (a # articles) =
     (case find (\<lambda>x. Article.ID x = Article.ID a) earlier of
        Some a2 \<Rightarrow> [duplicateArticleError a a2] | None \<Rightarrow> [])
     @ repeatedErrors (earlier @ [a]) articles"
  by (simp add: repeatedErrors_def enumerate_Suc_eq [of 0] o_def split_def cong: option.case_cong)

lemma manifestFrom_Nil [simp]: "manifestFrom earlier [] = []"
  by (simp add: manifestFrom_def)

lemma manifestFrom_Cons:
  "manifestFrom earlier (c # chapters) =
     Chapter.FileNameBase c # map Article.FileNameBase (firstOccurrences earlier (Articles c))
     @ manifestFrom (earlier @ Articles c) chapters"
  by (simp add: manifestFrom_def enumerate_Suc_eq [of 0] o_def split_def)

lemma duplicateErrorsFrom_Nil [simp]: "duplicateErrorsFrom earlier [] = []"
  by (simp add: duplicateErrorsFrom_def)

lemma duplicateErrorsFrom_Cons:
  "duplicateErrorsFrom earlier (c # chapters) =
     repeatedErrors earlier (Articles c) @ duplicateErrorsFrom (earlier @ Articles c) chapters"
  by (simp add: duplicateErrorsFrom_def enumerate_Suc_eq [of 0] o_def split_def)

lemma reported_append [simp]: "reported E (xs @ ys) = reported E xs @ reported E ys"
  by (simp add: reported_def)

lemma reported_Nil [simp]: "reported E [] = []"
  by (simp add: reported_def)

lemma find_snoc:
  "find P (xs @ [a]) = (case find P xs of Some x \<Rightarrow> Some x | None \<Rightarrow> if P a then Some a else None)"
  by (induction xs) simp_all

lemma find_None_ID: "find (\<lambda>x. f x = i) xs = None \<longleftrightarrow> i \<notin> set (map f xs)"
  by (auto simp: find_None_iff)

text \<open>The inner loop, when \<^verbatim>\<open>maybePanicIfErr\<close> returns: \<^verbatim>\<open>articleIds\<close> holds, for each
  identifier met so far, the first article with it.\<close>

lemma uniqueArticles_returns:
  assumes "\<forall>e. maybePanicIfErr E e \<noteq> None"
    and "articleIds = (\<lambda>i. find (\<lambda>x. Article.ID x = i) earlier)"
  shows "uniqueArticles E articles urls articleIds =
     (Returned (urls @ map Article.FileNameBase (firstOccurrences earlier articles),
                (\<lambda>i. find (\<lambda>x. Article.ID x = i) (earlier @ articles))),
      reported E (repeatedErrors earlier articles))"
  using assms(2)
proof (induction articles arbitrary: urls articleIds earlier)
  case Nil
  then show ?case by simp
next
  case (Cons a articles)
  show ?case
  proof (cases "find (\<lambda>x. Article.ID x = Article.ID a) earlier")
    case None
    then have notin: "Article.ID a \<notin> set (map Article.ID earlier)"
      by (simp add: find_None_ID)
    have upd: "articleIds(Article.ID a \<mapsto> a) = (\<lambda>i. find (\<lambda>x. Article.ID x = i) (earlier @ [a]))"
      using None by (auto simp: Cons.prems find_snoc fun_eq_iff split: option.splits)
    have "articleIds (Article.ID a) = None"
      using None by (simp add: Cons.prems)
    then have "uniqueArticles E (a # articles) urls articleIds =
        uniqueArticles E articles (urls @ [Article.FileNameBase a]) (articleIds(Article.ID a \<mapsto> a))"
      by simp
    also note Cons.IH [OF upd]
    finally show ?thesis
      using None notin by (simp add: firstOccurrences_Cons repeatedErrors_Cons)
  next
    case (Some a2)
    then have isin: "Article.ID a \<in> set (map Article.ID earlier)"
      using find_None_ID [of Article.ID "Article.ID a" earlier] by simp
    have same: "articleIds = (\<lambda>i. find (\<lambda>x. Article.ID x = i) (earlier @ [a]))"
    proof
      fix i
      show "articleIds i = find (\<lambda>x. Article.ID x = i) (earlier @ [a])"
        using Some by (cases "i = Article.ID a") (auto simp: Cons.prems find_snoc split: option.splits)
    qed
    obtain out where out: "maybePanicIfErr E (duplicateArticleError a a2) = Some out"
      using assms(1) by auto
    have "articleIds (Article.ID a) = Some a2"
      using Some by (simp add: Cons.prems)
    then have "uniqueArticles E (a # articles) urls articleIds =
        after_output out (uniqueArticles E articles urls articleIds)"
      using out by (simp add: Let_def)
    also note Cons.IH [OF same]
    finally show ?thesis
      using Some isin out
      by (simp add: firstOccurrences_Cons repeatedErrors_Cons after_output_def reported_def)
  qed
qed

lemma fst_after_output [simp]: "fst (after_output out r) = fst r"
  by (simp add: after_output_def)

lemma snd_after_output [simp]: "snd (after_output out r) = out @ snd r"
  by (simp add: after_output_def)

lemma find_chapter_upd:
  assumes "chapterIds = (\<lambda>i. find (\<lambda>x. Chapter.ID x = i) seen)"
    and "find (\<lambda>x. Chapter.ID x = Chapter.ID c) seen = None"
  shows "chapterIds(Chapter.ID c \<mapsto> c) = (\<lambda>i. find (\<lambda>x. Chapter.ID x = i) (seen @ [c]))"
  using assms by (auto simp: find_snoc fun_eq_iff split: option.splits)

text \<open>The outer loop on a list of chapters with pairwise different identifiers, none of
  them met before, when \<^verbatim>\<open>maybePanicIfErr\<close> returns.\<close>

lemma uniqueChapters_returns:
  assumes "\<forall>e. maybePanicIfErr E e \<noteq> None"
    and "articleIds = (\<lambda>i. find (\<lambda>x. Article.ID x = i) earlier)"
    and "distinct (map Chapter.ID chapters)"
    and "\<forall>c \<in> set chapters. chapterIds (Chapter.ID c) = None"
  shows "uniqueChapters E chapters urls chapterIds articleIds =
     (Returned (urls @ manifestFrom earlier chapters),
      reported E (duplicateErrorsFrom earlier chapters))"
  using assms(2-)
proof (induction chapters arbitrary: urls chapterIds articleIds earlier)
  case Nil
  then show ?case by simp
next
  case (Cons c chapters)
  have none: "chapterIds (Chapter.ID c) = None" using Cons.prems(3) by simp
  let ?urls = "urls @ [Chapter.FileNameBase c]"
  have ua: "uniqueArticles E (Articles c) ?urls articleIds =
     (Returned (?urls @ map Article.FileNameBase (firstOccurrences earlier (Articles c)),
                (\<lambda>i. find (\<lambda>x. Article.ID x = i) (earlier @ Articles c))),
      reported E (repeatedErrors earlier (Articles c)))"
    by (rule uniqueArticles_returns [OF assms(1) Cons.prems(1)])
  have rest: "uniqueChapters E chapters
       (?urls @ map Article.FileNameBase (firstOccurrences earlier (Articles c)))
       (chapterIds(Chapter.ID c \<mapsto> c)) (\<lambda>i. find (\<lambda>x. Article.ID x = i) (earlier @ Articles c)) =
     (Returned ((?urls @ map Article.FileNameBase (firstOccurrences earlier (Articles c)))
                 @ manifestFrom (earlier @ Articles c) chapters),
      reported E (duplicateErrorsFrom (earlier @ Articles c) chapters))"
  proof (rule Cons.IH [OF refl])
    show "distinct (map Chapter.ID chapters)" using Cons.prems(2) by simp
    show "\<forall>c' \<in> set chapters. (chapterIds(Chapter.ID c \<mapsto> c)) (Chapter.ID c') = None"
    proof
      fix c' assume c': "c' \<in> set chapters"
      then have "Chapter.ID c' \<noteq> Chapter.ID c"
        using Cons.prems(2) by (auto simp: image_iff)
      moreover have "chapterIds (Chapter.ID c') = None"
        using c' Cons.prems(3) by simp
      ultimately show "(chapterIds(Chapter.ID c \<mapsto> c)) (Chapter.ID c') = None"
        by simp
    qed
  qed
  show ?case
    using none ua rest
    by (simp add: Let_def after_output_def manifestFrom_Cons duplicateErrorsFrom_Cons)
qed

text \<open>The outer loop when an identifier comes twice: it never returns.\<close>

lemma uniqueChapters_not_Returned:
  assumes "chapterIds = (\<lambda>i. find (\<lambda>x. Chapter.ID x = i) seen)"
    and "distinct (map Chapter.ID seen)"
    and "\<not> distinct (map Chapter.ID (seen @ chapters))"
  shows "fst (uniqueChapters E chapters urls chapterIds articleIds) \<noteq> Returned u"
  using assms
proof (induction chapters arbitrary: urls chapterIds articleIds seen)
  case Nil
  then show ?case by simp
next
  case (Cons c chapters)
  show ?case
  proof (cases "find (\<lambda>x. Chapter.ID x = Chapter.ID c) seen")
    case (Some chap)
    then show ?thesis by (simp add: Cons.prems(1))
  next
    case None
    then have notin: "Chapter.ID c \<notin> set (map Chapter.ID seen)"
      by (simp add: find_None_ID)
    have upd: "chapterIds(Chapter.ID c \<mapsto> c) = (\<lambda>i. find (\<lambda>x. Chapter.ID x = i) (seen @ [c]))"
      using Cons.prems(1) None by (rule find_chapter_upd)
    have d: "distinct (map Chapter.ID (seen @ [c]))"
      using Cons.prems(2) notin by simp
    have nd: "\<not> distinct (map Chapter.ID ((seen @ [c]) @ chapters))"
      using Cons.prems(3) by simp
    have none: "chapterIds (Chapter.ID c) = None"
      using None by (simp add: Cons.prems(1))
    show ?thesis
    proof (cases "uniqueArticles E (Articles c) (urls @ [Chapter.FileNameBase c]) articleIds")
      case (Pair r out)
      show ?thesis
      proof (cases r)
        case (Returned p)
        obtain urls' ids' where p: "p = (urls', ids')" by (cases p)
        have "uniqueChapters E (c # chapters) urls chapterIds articleIds =
            after_output out (uniqueChapters E chapters urls' (chapterIds(Chapter.ID c \<mapsto> c)) ids')"
          using none Pair Returned p by (simp add: Let_def)
        then show ?thesis
          using Cons.IH [OF upd d nd, of urls' ids'] by (metis fst_after_output)
      qed (use none Pair in \<open>simp_all add: Let_def\<close>)
    qed
  qed
qed

text \<open>The two loops when \<^verbatim>\<open>maybePanicIfErr\<close> returns on the errors that are met, and when it
  panics on one of them.\<close>

lemma uniqueArticles_runs:
  assumes "\<forall>e \<in> set (repeatedErrors earlier articles). maybePanicIfErr E e \<noteq> None"
    and "articleIds = (\<lambda>i. find (\<lambda>x. Article.ID x = i) earlier)"
  shows "uniqueArticles E articles urls articleIds =
     (Returned (urls @ map Article.FileNameBase (firstOccurrences earlier articles),
                (\<lambda>i. find (\<lambda>x. Article.ID x = i) (earlier @ articles))),
      reported E (repeatedErrors earlier articles))"
  using assms
proof (induction articles arbitrary: urls articleIds earlier)
  case Nil
  then show ?case by simp
next
  case (Cons a articles)
  have later: "\<forall>e \<in> set (repeatedErrors (earlier @ [a]) articles). maybePanicIfErr E e \<noteq> None"
    using Cons.prems(1) by (simp add: repeatedErrors_Cons)
  show ?case
  proof (cases "find (\<lambda>x. Article.ID x = Article.ID a) earlier")
    case None
    then have notin: "Article.ID a \<notin> set (map Article.ID earlier)"
      by (simp add: find_None_ID)
    have upd: "articleIds(Article.ID a \<mapsto> a) = (\<lambda>i. find (\<lambda>x. Article.ID x = i) (earlier @ [a]))"
      using None by (auto simp: Cons.prems(2) find_snoc fun_eq_iff split: option.splits)
    have "articleIds (Article.ID a) = None"
      using None by (simp add: Cons.prems(2))
    then have "uniqueArticles E (a # articles) urls articleIds =
        uniqueArticles E articles (urls @ [Article.FileNameBase a]) (articleIds(Article.ID a \<mapsto> a))"
      by simp
    also note Cons.IH [OF later upd]
    finally show ?thesis
      using None notin by (simp add: firstOccurrences_Cons repeatedErrors_Cons)
  next
    case (Some a2)
    then have isin: "Article.ID a \<in> set (map Article.ID earlier)"
      using find_None_ID [of Article.ID "Article.ID a" earlier] by simp
    have same: "articleIds = (\<lambda>i. find (\<lambda>x. Article.ID x = i) (earlier @ [a]))"
    proof
      fix i
      show "articleIds i = find (\<lambda>x. Article.ID x = i) (earlier @ [a])"
        using Some by (cases "i = Article.ID a") (auto simp: Cons.prems(2) find_snoc split: option.splits)
    qed
    obtain out where out: "maybePanicIfErr E (duplicateArticleError a a2) = Some out"
      using Cons.prems(1) Some by (auto simp: repeatedErrors_Cons)
    have "articleIds (Article.ID a) = Some a2"
      using Some by (simp add: Cons.prems(2))
    then have "uniqueArticles E (a # articles) urls articleIds =
        after_output out (uniqueArticles E articles urls articleIds)"
      using out by (simp add: Let_def)
    also note Cons.IH [OF later same]
    finally show ?thesis
      using Some isin out
      by (simp add: firstOccurrences_Cons repeatedErrors_Cons after_output_def reported_def)
  qed
qed

lemma uniqueArticles_panics:
  assumes "articleIds = (\<lambda>i. find (\<lambda>x. Article.ID x = i) earlier)"
    and "\<exists>e \<in> set (repeatedErrors earlier articles). maybePanicIfErr E e = None"
  shows "\<exists>e out. uniqueArticles E articles urls articleIds = (Panicked e, out)
     \<and> e \<in> set (repeatedErrors earlier articles) \<and> maybePanicIfErr E e = None"
  using assms
proof (induction articles arbitrary: urls articleIds earlier)
  case Nil
  then show ?case by simp
next
  case (Cons a articles)
  show ?case
  proof (cases "find (\<lambda>x. Article.ID x = Article.ID a) earlier")
    case None
    have upd: "articleIds(Article.ID a \<mapsto> a) = (\<lambda>i. find (\<lambda>x. Article.ID x = i) (earlier @ [a]))"
      using None by (auto simp: Cons.prems(1) find_snoc fun_eq_iff split: option.splits)
    have later: "\<exists>e \<in> set (repeatedErrors (earlier @ [a]) articles). maybePanicIfErr E e = None"
      using Cons.prems(2) None by (simp add: repeatedErrors_Cons)
    have "articleIds (Article.ID a) = None"
      using None by (simp add: Cons.prems(1))
    then have step: "uniqueArticles E (a # articles) urls articleIds =
        uniqueArticles E articles (urls @ [Article.FileNameBase a]) (articleIds(Article.ID a \<mapsto> a))"
      by simp
    from Cons.IH [OF upd later, of "urls @ [Article.FileNameBase a]"] obtain e out where
      r: "uniqueArticles E articles (urls @ [Article.FileNameBase a]) (articleIds(Article.ID a \<mapsto> a))
            = (Panicked e, out)"
      and e: "e \<in> set (repeatedErrors (earlier @ [a]) articles)" "maybePanicIfErr E e = None"
      by blast
    from step r have "uniqueArticles E (a # articles) urls articleIds = (Panicked e, out)"
      by (rule trans)
    with e None show ?thesis
      by (simp add: repeatedErrors_Cons)
  next
    case (Some a2)
    have same: "articleIds = (\<lambda>i. find (\<lambda>x. Article.ID x = i) (earlier @ [a]))"
    proof
      fix i
      show "articleIds i = find (\<lambda>x. Article.ID x = i) (earlier @ [a])"
        using Some by (cases "i = Article.ID a") (auto simp: Cons.prems(1) find_snoc split: option.splits)
    qed
    have hit: "articleIds (Article.ID a) = Some a2"
      using Some by (simp add: Cons.prems(1))
    show ?thesis
    proof (cases "maybePanicIfErr E (duplicateArticleError a a2)")
      case None
      with hit have "uniqueArticles E (a # articles) urls articleIds = (Panicked (duplicateArticleError a a2), [])"
        by (simp add: Let_def)
      with None Some show ?thesis by (simp add: repeatedErrors_Cons)
    next
      case (Some out)
      with Cons.prems(2) \<open>find (\<lambda>x. Article.ID x = Article.ID a) earlier = Some a2\<close>
      have later: "\<exists>e \<in> set (repeatedErrors (earlier @ [a]) articles). maybePanicIfErr E e = None"
        by (auto simp: repeatedErrors_Cons)
      from hit Some have "uniqueArticles E (a # articles) urls articleIds =
          after_output out (uniqueArticles E articles urls articleIds)"
        by (simp add: Let_def)
      with Cons.IH [OF same later, of urls] show ?thesis
        by (auto simp: repeatedErrors_Cons after_output_def)
    qed
  qed
qed

lemma after_output_twice: "after_output out (after_output out' r) = after_output (out @ out') r"
  by (simp add: after_output_def split: prod.splits)

lemma uniqueChapters_prefix:
  assumes "articleIds = (\<lambda>i. find (\<lambda>x. Article.ID x = i) earlier)"
    and "chapterIds = (\<lambda>i. find (\<lambda>x. Chapter.ID x = i) seen)"
    and "distinct (map Chapter.ID (seen @ xs))"
    and "\<forall>e \<in> set (duplicateErrorsFrom earlier xs). maybePanicIfErr E e \<noteq> None"
  shows "uniqueChapters E (xs @ ys) urls chapterIds articleIds =
     after_output (reported E (duplicateErrorsFrom earlier xs))
       (uniqueChapters E ys (urls @ manifestFrom earlier xs)
          (\<lambda>i. find (\<lambda>x. Chapter.ID x = i) (seen @ xs))
          (\<lambda>i. find (\<lambda>x. Article.ID x = i) (earlier @ concat (map Articles xs))))"
  using assms
proof (induction xs arbitrary: urls chapterIds articleIds earlier seen)
  case Nil
  then show ?case by (simp add: after_output_def)
next
  case (Cons c xs)
  have notin: "Chapter.ID c \<notin> set (map Chapter.ID seen)"
    using Cons.prems(3) by auto
  then have nf: "find (\<lambda>x. Chapter.ID x = Chapter.ID c) seen = None"
    by (simp add: find_None_ID)
  have none: "chapterIds (Chapter.ID c) = None"
    using nf by (simp add: Cons.prems(2))
  have upd: "chapterIds(Chapter.ID c \<mapsto> c) = (\<lambda>i. find (\<lambda>x. Chapter.ID x = i) (seen @ [c]))"
    using Cons.prems(2) nf by (rule find_chapter_upd)
  have d: "distinct (map Chapter.ID ((seen @ [c]) @ xs))"
    using Cons.prems(3) by simp
  have h1: "\<forall>e \<in> set (repeatedErrors earlier (Articles c)). maybePanicIfErr E e \<noteq> None"
    and h2: "\<forall>e \<in> set (duplicateErrorsFrom (earlier @ Articles c) xs). maybePanicIfErr E e \<noteq> None"
    using Cons.prems(4) by (simp_all add: duplicateErrorsFrom_Cons)
  let ?urls = "urls @ [Chapter.FileNameBase c]"
  have ua: "uniqueArticles E (Articles c) ?urls articleIds =
     (Returned (?urls @ map Article.FileNameBase (firstOccurrences earlier (Articles c)),
                (\<lambda>i. find (\<lambda>x. Article.ID x = i) (earlier @ Articles c))),
      reported E (repeatedErrors earlier (Articles c)))"
    by (rule uniqueArticles_runs [OF h1 Cons.prems(1)])
  have "uniqueChapters E ((c # xs) @ ys) urls chapterIds articleIds =
      after_output (reported E (repeatedErrors earlier (Articles c)))
        (uniqueChapters E (xs @ ys)
           (?urls @ map Article.FileNameBase (firstOccurrences earlier (Articles c)))
           (chapterIds(Chapter.ID c \<mapsto> c))
           (\<lambda>i. find (\<lambda>x. Article.ID x = i) (earlier @ Articles c)))"
    using none ua by (simp add: Let_def)
  also note Cons.IH [OF refl upd d h2]
  finally show ?case
    by (simp add: after_output_twice manifestFrom_Cons duplicateErrorsFrom_Cons)
qed

lemma uniqueChapters_panics:
  assumes "articleIds = (\<lambda>i. find (\<lambda>x. Article.ID x = i) earlier)"
    and "chapterIds = (\<lambda>i. find (\<lambda>x. Chapter.ID x = i) seen)"
    and "distinct (map Chapter.ID (seen @ xs))"
    and "\<exists>e \<in> set (duplicateErrorsFrom earlier xs). maybePanicIfErr E e = None"
  shows "\<exists>e out. uniqueChapters E (xs @ ys) urls chapterIds articleIds = (Panicked e, out)
     \<and> e \<in> set (duplicateErrorsFrom earlier xs) \<and> maybePanicIfErr E e = None"
  using assms
proof (induction xs arbitrary: urls chapterIds articleIds earlier seen)
  case Nil
  then show ?case by simp
next
  case (Cons c xs)
  have notin: "Chapter.ID c \<notin> set (map Chapter.ID seen)"
    using Cons.prems(3) by auto
  then have nf: "find (\<lambda>x. Chapter.ID x = Chapter.ID c) seen = None"
    by (simp add: find_None_ID)
  have none: "chapterIds (Chapter.ID c) = None"
    using nf by (simp add: Cons.prems(2))
  have upd: "chapterIds(Chapter.ID c \<mapsto> c) = (\<lambda>i. find (\<lambda>x. Chapter.ID x = i) (seen @ [c]))"
    using Cons.prems(2) nf by (rule find_chapter_upd)
  have d: "distinct (map Chapter.ID ((seen @ [c]) @ xs))"
    using Cons.prems(3) by simp
  let ?urls = "urls @ [Chapter.FileNameBase c]"
  show ?case
  proof (cases "\<exists>e \<in> set (repeatedErrors earlier (Articles c)). maybePanicIfErr E e = None")
    case True
    from uniqueArticles_panics [OF Cons.prems(1) True, of ?urls] obtain e out where
      "uniqueArticles E (Articles c) ?urls articleIds = (Panicked e, out)"
      "e \<in> set (repeatedErrors earlier (Articles c))" "maybePanicIfErr E e = None"
      by blast
    with none show ?thesis
      by (auto simp: Let_def duplicateErrorsFrom_Cons)
  next
    case False
    then have h1: "\<forall>e \<in> set (repeatedErrors earlier (Articles c)). maybePanicIfErr E e \<noteq> None"
      by simp
    from False Cons.prems(4)
    have h2: "\<exists>e \<in> set (duplicateErrorsFrom (earlier @ Articles c) xs). maybePanicIfErr E e = None"
      by (auto simp: duplicateErrorsFrom_Cons)
    have ua: "uniqueArticles E (Articles c) ?urls articleIds =
       (Returned (?urls @ map Article.FileNameBase (firstOccurrences earlier (Articles c)),
                  (\<lambda>i. find (\<lambda>x. Article.ID x = i) (earlier @ Articles c))),
        reported E (repeatedErrors earlier (Articles c)))"
      by (rule uniqueArticles_runs [OF h1 Cons.prems(1)])
    have step: "uniqueChapters E ((c # xs) @ ys) urls chapterIds articleIds =
        after_output (reported E (repeatedErrors earlier (Articles c)))
          (uniqueChapters E (xs @ ys)
             (?urls @ map Article.FileNameBase (firstOccurrences earlier (Articles c)))
             (chapterIds(Chapter.ID c \<mapsto> c))
             (\<lambda>i. find (\<lambda>x. Article.ID x = i) (earlier @ Articles c)))"
      using none ua by (simp add: Let_def)
    from Cons.IH [OF refl upd d h2,
        of "?urls @ map Article.FileNameBase (firstOccurrences earlier (Articles c))"]
    obtain e out where
      r: "uniqueChapters E (xs @ ys)
             (?urls @ map Article.FileNameBase (firstOccurrences earlier (Articles c)))
             (chapterIds(Chapter.ID c \<mapsto> c))
             (\<lambda>i. find (\<lambda>x. Article.ID x = i) (earlier @ Articles c)) = (Panicked e, out)"
      and e: "e \<in> set (duplicateErrorsFrom (earlier @ Articles c) xs)" "maybePanicIfErr E e = None"
      by blast
    have "uniqueChapters E ((c # xs) @ ys) urls chapterIds articleIds =
        (Panicked e, reported E (repeatedErrors earlier (Articles c)) @ out)"
      unfolding step r by (simp add: after_output_def)
    with e show ?thesis
      by (auto simp: duplicateErrorsFrom_Cons)
  qed
qed

text \<open>The first position of a list at which a value comes again.\<close>

lemma first_repeat:
  assumes "\<not> distinct (map f xs)"
  shows "\<exists>i j. j < i \<and> i < length xs \<and> distinct (map f (take i xs)) \<and> f (xs ! i) = f (xs ! j)
     \<and> find (\<lambda>x. f x = f (xs ! i)) (take i xs) = Some (xs ! j)"
  using assms
proof (induction xs rule: rev_induct)
  case Nil
  then show ?case by simp
next
  case (snoc x xs)
  show ?case
  proof (cases "distinct (map f xs)")
    case False
    from snoc.IH [OF False] obtain i j where
      "j < i" "i < length xs" "distinct (map f (take i xs))" "f (xs ! i) = f (xs ! j)"
      "find (\<lambda>y. f y = f (xs ! i)) (take i xs) = Some (xs ! j)"
      by blast
    then show ?thesis
      by (intro exI [of _ i] exI [of _ j]) (simp add: nth_append)
  next
    case True
    with snoc.prems have "f x \<in> set (map f xs)" by simp
    then obtain y where "find (\<lambda>y. f y = f x) xs = Some y"
      using find_None_ID [of f "f x" xs] by (cases "find (\<lambda>y. f y = f x) xs") auto
    then obtain j where "j < length xs" "f (xs ! j) = f x" "y = xs ! j"
      by (auto simp: find_Some_iff)
    with True \<open>find (\<lambda>y. f y = f x) xs = Some y\<close> show ?thesis
      by (intro exI [of _ "length xs"] exI [of _ j]) (simp add: nth_append)
  qed
qed

text \<open>\<^verbatim>\<open>ensureUniqueIds\<close> on a book in which a chapter identifier comes twice: up to the first
  chapter \<open>i\<close> whose identifier was met before, the loops run as on a book without
  repeated chapters; there the report is printed and the process exits, unless
  \<^verbatim>\<open>maybePanicIfErr\<close> has panicked on a repeated article before.\<close>

lemma ensureUniqueIds_repeat:
  assumes "\<not> distinct (map Chapter.ID (Chapters book))"
  shows "\<exists>i j. j < i \<and> i < length (Chapters book)
          \<and> distinct (map Chapter.ID (take i (Chapters book)))
          \<and> Chapter.ID (Chapters book ! i) = Chapter.ID (Chapters book ! j)
          \<and> ((\<forall>e \<in> set (duplicateErrors (take i (Chapters book))). maybePanicIfErr E e \<noteq> None) \<longrightarrow>
               ensureUniqueIds E book =
                 (Exited 1,
                  reported E (duplicateErrors (take i (Chapters book)))
                  @ duplicateChapterReport (Chapters book ! i) (Chapters book ! j)))
          \<and> ((\<exists>e \<in> set (duplicateErrors (take i (Chapters book))). maybePanicIfErr E e = None) \<longrightarrow>
               (\<exists>e out. ensureUniqueIds E book = (Panicked e, out)
                  \<and> e \<in> set (duplicateErrors (take i (Chapters book))) \<and> maybePanicIfErr E e = None))"
proof -
  let ?chs = "Chapters book"
  from first_repeat [OF assms] obtain i j where
    ij: "j < i" "i < length ?chs" "distinct (map Chapter.ID (take i ?chs))"
        "Chapter.ID (?chs ! i) = Chapter.ID (?chs ! j)"
    and f: "find (\<lambda>x. Chapter.ID x = Chapter.ID (?chs ! i)) (take i ?chs) = Some (?chs ! j)"
    by blast
  let ?xs = "take i ?chs" and ?c = "?chs ! i" and ?ys = "drop (Suc i) ?chs"
  have split: "?chs = ?xs @ ?c # ?ys"
    using ij(2) by (simp add: id_take_nth_drop)
  have a0: "Map.empty = (\<lambda>i. find (\<lambda>x. Article.ID x = i) [])" by simp
  have c0: "Map.empty = (\<lambda>i. find (\<lambda>x. Chapter.ID x = i) [])" by simp
  have d: "distinct (map Chapter.ID ([] @ ?xs))" using ij(3) by simp
  have ok: "ensureUniqueIds E book =
      (Exited 1, reported E (duplicateErrors ?xs) @ duplicateChapterReport ?c (?chs ! j))"
    if h: "\<forall>e \<in> set (duplicateErrors ?xs). maybePanicIfErr E e \<noteq> None"
  proof -
    from h have h': "\<forall>e \<in> set (duplicateErrorsFrom [] ?xs). maybePanicIfErr E e \<noteq> None"
      by (simp add: duplicateErrors_def)
    have "uniqueChapters E (?xs @ ?c # ?ys) [] Map.empty Map.empty =
       after_output (reported E (duplicateErrorsFrom [] ?xs))
         (uniqueChapters E (?c # ?ys) ([] @ manifestFrom [] ?xs)
            (\<lambda>i. find (\<lambda>x. Chapter.ID x = i) ([] @ ?xs))
            (\<lambda>i. find (\<lambda>x. Article.ID x = i) ([] @ concat (map Articles ?xs))))"
      by (rule uniqueChapters_prefix [OF a0 c0 d h'])
    also have "uniqueChapters E (?c # ?ys) ([] @ manifestFrom [] ?xs)
            (\<lambda>i. find (\<lambda>x. Chapter.ID x = i) ([] @ ?xs))
            (\<lambda>i. find (\<lambda>x. Article.ID x = i) ([] @ concat (map Articles ?xs)))
          = (Exited 1, duplicateChapterReport ?c (?chs ! j))"
      using f by simp
    finally have "uniqueChapters E ?chs [] Map.empty Map.empty =
        (Exited 1, reported E (duplicateErrors ?xs) @ duplicateChapterReport ?c (?chs ! j))"
      using split by (simp add: after_output_def duplicateErrors_def)
    then show ?thesis by (simp add: ensureUniqueIds_def)
  qed
  have bad: "\<exists>e out. ensureUniqueIds E book = (Panicked e, out)
       \<and> e \<in> set (duplicateErrors ?xs) \<and> maybePanicIfErr E e = None"
    if h: "\<exists>e \<in> set (duplicateErrors ?xs). maybePanicIfErr E e = None"
  proof -
    from h have h': "\<exists>e \<in> set (duplicateErrorsFrom [] ?xs). maybePanicIfErr E e = None"
      by (simp add: duplicateErrors_def)
    from uniqueChapters_panics [OF a0 c0 d h', of "?c # ?ys" "[]"] obtain e out where
      "uniqueChapters E (?xs @ ?c # ?ys) [] Map.empty Map.empty = (Panicked e, out)"
      "e \<in> set (duplicateErrorsFrom [] ?xs)" "maybePanicIfErr E e = None"
      by blast
    with split have "ensureUniqueIds E book = (Panicked e, out)"
      "e \<in> set (duplicateErrors ?xs)" "maybePanicIfErr E e = None"
      by (simp_all add: ensureUniqueIds_def duplicateErrors_def)
    then show ?thesis by blast
  qed
  from ij ok bad show ?thesis by blast
qed

lemma parseBook_validated:
  assumes "parseBook E bookName = (Returned (Some book, err2), out)"
  obtains book1 book2 out2 where "ensureUniqueIds E book1 = (Returned book2, out2)"
    and "Chapters book1 = Chapters book" and "knownUrls book = knownUrls book2"
proof -
  have src: "sourceDir (newBook E bookName) = Join E [''books'', MakeURLSafe E bookName]"
    by (simp add: newBook_def Let_def)
  from assms obtain fileInfos where rd: "ReadDir E (Join E [''books'', MakeURLSafe E bookName]) = (fileInfos, None)"
    by (auto simp: parseBook_def src Let_def split: prod.splits option.splits)
  from assms rd obtain book1 book2 out2 where
    eu: "ensureUniqueIds E book1 = (Returned book2, out2)"
    and bk: "book = snd (ArticlesCount book2)"
    by (auto simp: parseBook_def src Let_def after_output_def afterBarrier_def
        split: prod.splits outcome.splits sum.splits)
  from ensureUniqueIds_Returned [OF eu] bk
  have "Chapters book1 = Chapters book" "knownUrls book = knownUrls book2"
    by (auto simp: ArticlesCount_def Let_def)
  with eu show thesis by (rule that)
qed

lemma length_firstOccurrences:
  "length (firstOccurrences earlier articles)
     = card (Article.ID ` set articles - Article.ID ` set earlier)"
proof (induction articles arbitrary: earlier)
  case Nil
  then show ?case by simp
next
  case (Cons a articles)
  have eq: "Article.ID ` set articles - Article.ID ` set (earlier @ [a])
      = (Article.ID ` set (a # articles) - Article.ID ` set earlier) - {Article.ID a}"
    by auto
  show ?case
  proof (cases "Article.ID a \<in> Article.ID ` set earlier")
    case True
    then have "Article.ID ` set articles - Article.ID ` set (earlier @ [a])
        = Article.ID ` set (a # articles) - Article.ID ` set earlier"
      by auto
    with True show ?thesis
      by (simp add: firstOccurrences_Cons Cons.IH)
  next
    case False
    then have "Article.ID a \<in> Article.ID ` set (a # articles) - Article.ID ` set earlier"
      by simp
    then have "card (Article.ID ` set (a # articles) - Article.ID ` set earlier)
        = Suc (card ((Article.ID ` set (a # articles) - Article.ID ` set earlier) - {Article.ID a}))"
      by (intro card.remove) simp_all
    moreover have "length (firstOccurrences (earlier @ [a]) articles)
        = card ((Article.ID ` set (a # articles) - Article.ID ` set earlier) - {Article.ID a})"
      by (simp only: Cons.IH eq)
    moreover have "length (firstOccurrences earlier (a # articles))
        = Suc (length (firstOccurrences (earlier @ [a]) articles))"
      using False by (simp add: firstOccurrences_Cons)
    ultimately show ?thesis by simp
  qed
qed

lemma length_manifestFrom:
  "length (manifestFrom earlier chapters)
     = length chapters
       + card (Article.ID ` (\<Union>c \<in> set chapters. set (Articles c)) - Article.ID ` set earlier)"
proof (induction chapters arbitrary: earlier)
  case Nil
  then show ?case by simp
next
  case (Cons c chapters)
  let ?A = "Article.ID ` set (Articles c) - Article.ID ` set earlier"
  let ?B = "Article.ID ` (\<Union>c \<in> set chapters. set (Articles c)) - Article.ID ` set (earlier @ Articles c)"
  have "Article.ID ` (\<Union>c \<in> set (c # chapters). set (Articles c)) - Article.ID ` set earlier = ?A \<union> ?B"
    by auto
  moreover have "?A \<inter> ?B = {}" by auto
  moreover have "finite ?A" "finite ?B" by simp_all
  ultimately have "card (Article.ID ` (\<Union>c \<in> set (c # chapters). set (Articles c)) - Article.ID ` set earlier)
      = card ?A + card ?B"
    by (simp only: card_Un_disjoint)
  moreover have "length (manifestFrom earlier (c # chapters))
      = Suc (length (firstOccurrences earlier (Articles c)) + length (manifestFrom (earlier @ Articles c) chapters))"
    by (simp add: manifestFrom_Cons)
  moreover have "length (firstOccurrences earlier (Articles c)) = card ?A"
    by (rule length_firstOccurrences)
  moreover have "length (manifestFrom (earlier @ Articles c) chapters) = length chapters + card ?B"
    by (rule Cons.IH)
  ultimately show ?case by simp
qed

section \<open>Include expansion\<close>

lemma expandIncludes_Nil [simp]: "expandIncludes E path [] = []"
  by (simp add: expandIncludes_def)

lemma expandIncludes_Cons:
  "expandIncludes E path (line # lines) =
     (if prefix ''@file '' line then fst (extractCodeSnippetsAsMarkdownLines E (Dir E path) line)
      else [line]) @ expandIncludes E path lines"
  by (simp add: expandIncludes_def)

lemma failingInclude_Cons:
  "failingInclude E path (line # lines) \<longleftrightarrow>
     prefix ''@file '' line \<and> snd (extractCodeSnippetsAsMarkdownLines E (Dir E path) line) \<noteq> None
     \<or> failingInclude E path lines"
  by (simp add: failingInclude_def)

lemma includeLines_expanded:
  "\<not> failingInclude E path lines \<Longrightarrow>
   includeLines E path lines res = ((res @ expandIncludes E path lines, None), [])"
proof (induction lines arbitrary: res)
  case Nil
  then show ?case by simp
next
  case (Cons line lines)
  then show ?case
    by (cases "extractCodeSnippetsAsMarkdownLines E (Dir E path) line")
      (auto simp: failingInclude_Cons expandIncludes_Cons)
qed

lemma includeLines_failed:
  "failingInclude E path lines \<Longrightarrow>
   \<exists>e out. includeLines E path lines res = (([], Some e), out)"
proof (induction lines arbitrary: res)
  case Nil
  then show ?case by (simp add: failingInclude_def)
next
  case (Cons line lines)
  show ?case
  proof (cases "prefix ''@file '' line
      \<and> snd (extractCodeSnippetsAsMarkdownLines E (Dir E path) line) \<noteq> None")
    case True
    then show ?thesis
      by (cases "extractCodeSnippetsAsMarkdownLines E (Dir E path) line") auto
  next
    case False
    with Cons.prems have "failingInclude E path lines"
      unfolding failingInclude_Cons by blast
    from Cons.IH [OF this] False show ?thesis
      by (cases "extractCodeSnippetsAsMarkdownLines E (Dir E path) line") auto
  qed
qed

lemma processFileIncludes_result:
  "(snd (fst (processFileIncludes E path)) \<noteq> None \<longleftrightarrow>
      snd (ReadFileAsLines E path) \<noteq> None \<or> failingInclude E path (fst (ReadFileAsLines E path)))
   \<and> (snd (fst (processFileIncludes E path)) = None \<longrightarrow>
      fst (fst (processFileIncludes E path)) = expandIncludes E path (fst (ReadFileAsLines E path)))"
proof (cases "ReadFileAsLines E path")
  case (Pair lines err)
  show ?thesis
  proof (cases err)
    case None
    show ?thesis
    proof (cases "failingInclude E path lines")
      case True
      from includeLines_failed [OF this, of "[]"] Pair None True show ?thesis
        by (auto simp: processFileIncludes_def)
    next
      case False
      from includeLines_expanded [OF this, of "[]"] Pair None False show ?thesis
        by (simp add: processFileIncludes_def)
    qed
  next
    case (Some e)
    with Pair show ?thesis by (simp add: processFileIncludes_def)
  qed
qed

section \<open>The fields of an article\<close>

lemma GetValue_lookup:
  "GetValue doc key =
     (case lookup doc key of
        Some v \<Rightarrow> (v, None)
      | None \<Rightarrow> ('''', Some (Error (''key '' @ sq @ key @ sq @ '' not found''))))"
  by (induction doc) (simp_all add: lookup_def)

lemma GetValueSilent_lookup:
  "GetValueSilent doc key def = (case lookup doc key of Some v \<Rightarrow> v | None \<Rightarrow> def)"
  by (simp add: GetValueSilent_def GetValue_lookup split: option.splits)

lemma paarse_split:
  assumes "fst (paarseKVFileWithIncludes E path) = (doc, err)"
  obtains out0 where "paarseKVFileWithIncludes E path = ((doc, err), out0)"
  using assms by (metis prod.collapse)

text \<open>What \<^verbatim>\<open>parseArticle\<close> does once the document is there and has an identifier
  without a space.\<close>

lemma parseArticle_body:
  assumes "fst (paarseKVFileWithIncludes E path) = (doc, None)"
    and "lookup doc ''Id'' = Some ident" and "\<not> Contains_space ident"
  shows "lookup doc ''Body'' = Some body \<Longrightarrow>
      fst (parseArticle E path) =
        Returned (Inr (newArticle path ident (GetValueSilent doc ''Title'' defTitle)
          (''a-'' @ ident @ ''-'' @ MakeURLSafe E (GetValueSilent doc ''Title'' defTitle)) body ''''))"
    and "lookup doc ''Body'' = None \<Longrightarrow> lookup doc ''BodyHtml'' = Some html \<Longrightarrow>
      fst (parseArticle E path) =
        Returned (Inr (newArticle path ident (GetValueSilent doc ''Title'' defTitle)
          (''a-'' @ ident @ ''-'' @ MakeURLSafe E (GetValueSilent doc ''Title'' defTitle)) '''' html))"
    and "lookup doc ''Body'' = None \<Longrightarrow> lookup doc ''BodyHtml'' = None \<Longrightarrow>
      (\<exists>e. fst (parseArticle E path) = Returned (Inl e))
      \<and> (\<exists>pre. snd (parseArticle E path) = pre @ dumpKV E doc)"
proof -
  from assms(1) obtain out0 where p: "paarseKVFileWithIncludes E path = ((doc, None), out0)"
    by (rule paarse_split)
  show "lookup doc ''Body'' = Some body \<Longrightarrow>
      fst (parseArticle E path) =
        Returned (Inr (newArticle path ident (GetValueSilent doc ''Title'' defTitle)
          (''a-'' @ ident @ ''-'' @ MakeURLSafe E (GetValueSilent doc ''Title'' defTitle)) body ''''))"
    using p assms(2,3) by (simp add: parseArticle_def GetValue_lookup Let_def)
  show "lookup doc ''Body'' = None \<Longrightarrow> lookup doc ''BodyHtml'' = Some html \<Longrightarrow>
      fst (parseArticle E path) =
        Returned (Inr (newArticle path ident (GetValueSilent doc ''Title'' defTitle)
          (''a-'' @ ident @ ''-'' @ MakeURLSafe E (GetValueSilent doc ''Title'' defTitle)) '''' html))"
    using p assms(2,3) by (simp add: parseArticle_def GetValue_lookup Let_def)
  show "lookup doc ''Body'' = None \<Longrightarrow> lookup doc ''BodyHtml'' = None \<Longrightarrow>
      (\<exists>e. fst (parseArticle E path) = Returned (Inl e))
      \<and> (\<exists>pre. snd (parseArticle E path) = pre @ dumpKV E doc)"
    using p assms(2,3) by (simp add: parseArticle_def GetValue_lookup Let_def)
qed

section \<open>Counting articles\<close>

lemma fold_count:
  "fold (\<lambda>ch n. n + of_nat (length (Articles ch))) chapters (acc :: 64 word)
     = acc + of_nat (sum_list (map (\<lambda>ch. length (Articles ch)) chapters))"
  by (induction chapters arbitrary: acc) (simp_all add: add.assoc)

lemma ArticlesCount_first:
  "cachedArticlesCount b = 0 \<Longrightarrow>
   ArticlesCount b = (of_nat (totalArticles (Chapters b)),
                      b\<lparr>cachedArticlesCount := of_nat (totalArticles (Chapters b))\<rparr>)"
  by (simp add: ArticlesCount_def fold_count totalArticles_def Let_def)

lemma ArticlesCount_cached:
  "cachedArticlesCount b \<noteq> 0 \<Longrightarrow> ArticlesCount b = (cachedArticlesCount b, b)"
  by (simp add: ArticlesCount_def)

lemma sint_of_nat_small:
  "n < 2 ^ 63 \<Longrightarrow> sint (of_nat n :: 64 word) = int n"
proof -
  assume "n < 2 ^ 63"
  then have "int n < 2 ^ 63" by (metis of_nat_less_iff of_nat_numeral of_nat_power)
  then show ?thesis
    by (simp add: signed_of_nat signed_take_bit_int_eq_self)
qed

section \<open>Identifiers with a space\<close>

lemma parseChapterDoc_space:
  assumes "lookup doc ''Title'' = Some title" and "lookup doc ''Id'' = Some ident"
    and "Contains_space ident"
  shows "parseChapterDoc E dir path doc chapter =
     (Returned (chapter\<lparr>indexDoc := doc, Chapter.Title := title, Chapter.ID := ident\<rparr>,
        Some (Error (''parseChapter('' @ sq @ path @ sq @ ''), chapter.ID = '' @ sq @ ident @ sq
                       @ '' has space in it''))), [])"
  using assms by (simp add: parseChapterDoc_def GetValue_lookup Let_def)

section \<open>The goroutines: what holds in every run\<close>

lemma filter_update_count:
  "i < length xs \<Longrightarrow>
   length (filter P (xs[i := y])) + (if P (xs ! i) then 1 else 0)
     = length (filter P xs) + (if P y then 1 else 0)"
proof (induction xs arbitrary: i)
  case Nil
  then show ?case by simp
next
  case (Cons x xs)
  show ?case
  proof (cases i)
    case 0
    then show ?thesis by simp
  next
    case (Suc j)
    with Cons.prems have "j < length xs" by simp
    from Cons.IH [OF this] Suc show ?thesis by simp
  qed
qed

lemma filter_update_same:
  "i < length xs \<Longrightarrow> P (xs ! i) = P y \<Longrightarrow> length (filter P (xs[i := y])) = length (filter P xs)"
  using filter_update_count [of i xs P y] by (simp split: if_splits)

lemma filter_update_drop:
  "i < length xs \<Longrightarrow> P (xs ! i) \<Longrightarrow> \<not> P y \<Longrightarrow>
   Suc (length (filter P (xs[i := y]))) = length (filter P xs)"
  using filter_update_count [of i xs P y] by simp

text \<open>The steps, one case for each statement.\<close>

lemma advance_cases [consumes 1, case_names dispatch toc contributors contributors_panic
    unexpected loop_end barrier parsed parse_panic test copy release leave]:
  assumes "advance E fis t s = Some s'"
  obtains
    (dispatch) k where "scannerPc s = Scanning k" "k < length fis" "IsDir (fis ! k)"
      "int (semCount s) < getAlmostMaxProcs E"
      "s' = s\<lparr>chapterObjs := chapterObjs s @ [newChapter (theBook s) (FileInfo.Name (fis ! k))],
             workerPcs := workerPcs s @ [Parsing],
             semCount := semCount s + 1, wgCount := wgCount s + 1,
             scannerPc := Scanning (Suc k)\<rparr>"
  | (toc) k where "scannerPc s = Scanning k" "k < length fis" "\<not> IsDir (fis ! k)"
      "ToLower E (FileInfo.Name (fis ! k)) = ''toc.txt''"
      "s' = s\<lparr>scannerPc := Scanning (Suc k)\<rparr>"
  | (contributors) k cs where "scannerPc s = Scanning k" "k < length fis" "\<not> IsDir (fis ! k)"
      "ToLower E (FileInfo.Name (fis ! k)) \<noteq> ''toc.txt''"
      "ToLower E (FileInfo.Name (fis ! k)) = ''so_contributors.txt''"
      "loadSoContributors E (Join E [sourceDir (theBook s), FileInfo.Name (fis ! k)]) = Inr cs"
      "s' = s\<lparr>theBook := (theBook s)\<lparr>SoContributors := cs\<rparr>, scannerPc := Scanning (Suc k)\<rparr>"
  | (contributors_panic) k e where "scannerPc s = Scanning k" "s' = s\<lparr>scannerPc := Crashed e\<rparr>"
  | (unexpected) k e where "scannerPc s = Scanning k" "s' = s\<lparr>scannerPc := ReturnedEarly e\<rparr>"
  | (loop_end) k where "scannerPc s = Scanning k" "length fis \<le> k" "s' = s\<lparr>scannerPc := Waiting\<rparr>"
  | (barrier) "scannerPc s = Waiting" "wgCount s = 0" "s' = s\<lparr>scannerPc := Finished\<rparr>"
  | (parsed) i c e where "\<not> crashed s" "i < length (workerPcs s)" "workerPcs s ! i = Parsing"
      "fst (parseChapter E (theBook s) (chapterObjs s ! i)) = Returned (c, e)"
      "s' = s\<lparr>chapterObjs := (chapterObjs s)[i := c], errVar := e,
             workerPcs := (workerPcs s)[i := Assigned]\<rparr>"
  | (parse_panic) i e where "\<not> crashed s" "i < length (workerPcs s)" "workerPcs s ! i = Parsing"
      "s' = s\<lparr>scannerPc := Crashed e\<rparr>"
  | (test) i where "\<not> crashed s" "i < length (workerPcs s)" "workerPcs s ! i = Assigned"
      "s' = s\<lparr>workerPcs := (workerPcs s)[i := if errVar s \<noteq> None then Copying else Releasing]\<rparr>"
  | (copy) i where "\<not> crashed s" "i < length (workerPcs s)" "workerPcs s ! i = Copying"
      "s' = s\<lparr>err2Var := errVar s, workerPcs := (workerPcs s)[i := Releasing]\<rparr>"
  | (release) i where "\<not> crashed s" "i < length (workerPcs s)" "workerPcs s ! i = Releasing"
      "0 < semCount s"
      "s' = s\<lparr>semCount := semCount s - 1, workerPcs := (workerPcs s)[i := Leaving]\<rparr>"
  | (leave) i where "\<not> crashed s" "i < length (workerPcs s)" "workerPcs s ! i = Leaving"
      "0 < wgCount s"
      "s' = s\<lparr>wgCount := wgCount s - 1, workerPcs := (workerPcs s)[i := Done]\<rparr>"
proof (cases t)
  case Loop
  with assms have a: "advanceLoop E fis s = Some s'" by (simp add: advance_def)
  show thesis
  proof (cases "scannerPc s")
    case (Scanning k)
    show thesis
    proof (cases "k < length fis")
      case False
      with a Scanning have "s' = s\<lparr>scannerPc := Waiting\<rparr>"
        by (simp add: advanceLoop_def)
      with Scanning False show thesis
        by (intro loop_end [of k]) simp_all
    next
      case True
      show thesis
      proof (cases "IsDir (fis ! k)")
        case d: True
        with a Scanning True have "int (semCount s) < getAlmostMaxProcs E"
          and "s' = s\<lparr>chapterObjs := chapterObjs s @ [newChapter (theBook s) (FileInfo.Name (fis ! k))],
             workerPcs := workerPcs s @ [Parsing],
             semCount := semCount s + 1, wgCount := wgCount s + 1,
             scannerPc := Scanning (Suc k)\<rparr>"
          by (auto simp: advanceLoop_def Let_def split: if_splits)
        with Scanning True d show thesis by (rule dispatch)
      next
        case nd: False
        show thesis
        proof (cases "ToLower E (FileInfo.Name (fis ! k)) = ''toc.txt''")
          case tc: True
          with a Scanning True nd have "s' = s\<lparr>scannerPc := Scanning (Suc k)\<rparr>"
            by (simp add: advanceLoop_def Let_def)
          with Scanning True nd tc show thesis by (rule toc)
        next
          case ntc: False
          show thesis
          proof (cases "ToLower E (FileInfo.Name (fis ! k)) = ''so_contributors.txt''")
            case so: True
            show thesis
            proof (cases "loadSoContributors E (Join E [sourceDir (theBook s), FileInfo.Name (fis ! k)])")
              case (Inr cs)
              with a Scanning True nd ntc so
              have "s' = s\<lparr>theBook := (theBook s)\<lparr>SoContributors := cs\<rparr>, scannerPc := Scanning (Suc k)\<rparr>"
                by (simp add: advanceLoop_def Let_def)
              with Scanning True nd ntc so Inr show thesis by (rule contributors)
            next
              case (Inl e)
              with a Scanning True nd ntc so have "s' = s\<lparr>scannerPc := Crashed e\<rparr>"
                by (simp add: advanceLoop_def Let_def)
              with Scanning show thesis by (rule contributors_panic)
            qed
          next
            case nso: False
            with a Scanning True nd ntc
            have "s' = s\<lparr>scannerPc := ReturnedEarly
                (Error (''Unexpected file at top-level: '' @ sq @ FileInfo.Name (fis ! k) @ sq))\<rparr>"
              by (simp add: advanceLoop_def Let_def)
            with Scanning show thesis by (rule unexpected)
          qed
        qed
      qed
    qed
  next
    case Waiting
    with a have "wgCount s = 0" "s' = s\<lparr>scannerPc := Finished\<rparr>"
      by (auto simp: advanceLoop_def split: if_splits)
    with Waiting show thesis by (rule barrier)
  qed (use a in \<open>simp_all add: advanceLoop_def\<close>)
next
  case (Goroutine i)
  with assms have a: "advanceGoroutine E i s = Some s'" by (simp add: advance_def)
  then have nc: "\<not> crashed s" and i: "i < length (workerPcs s)"
    by (auto simp: advanceGoroutine_def split: if_splits)
  show thesis
  proof (cases "workerPcs s ! i")
    case Parsing
    show thesis
    proof (cases "fst (parseChapter E (theBook s) (chapterObjs s ! i))")
      case (Returned r)
      obtain c e where r: "r = (c, e)" by (cases r)
      with a nc i Parsing Returned
      have "s' = s\<lparr>chapterObjs := (chapterObjs s)[i := c], errVar := e,
             workerPcs := (workerPcs s)[i := Assigned]\<rparr>"
        by (simp add: advanceGoroutine_def)
      with nc i Parsing Returned r show thesis by (intro parsed [of i c e]) simp_all
    next
      case (Panicked e)
      with a nc i Parsing have "s' = s\<lparr>scannerPc := Crashed e\<rparr>"
        by (simp add: advanceGoroutine_def)
      with nc i Parsing show thesis by (rule parse_panic)
    next
      case (Exited n)
      with a nc i Parsing show thesis by (simp add: advanceGoroutine_def)
    qed
  next
    case Assigned
    with a nc i
    have "s' = s\<lparr>workerPcs := (workerPcs s)[i := if errVar s \<noteq> None then Copying else Releasing]\<rparr>"
      by (simp add: advanceGoroutine_def)
    with nc i Assigned show thesis by (rule test)
  next
    case Copying
    with a nc i have "s' = s\<lparr>err2Var := errVar s, workerPcs := (workerPcs s)[i := Releasing]\<rparr>"
      by (simp add: advanceGoroutine_def)
    with nc i Copying show thesis by (rule copy)
  next
    case Releasing
    with a nc i have "0 < semCount s"
      and "s' = s\<lparr>semCount := semCount s - 1, workerPcs := (workerPcs s)[i := Leaving]\<rparr>"
      by (auto simp: advanceGoroutine_def split: if_splits)
    with nc i Releasing show thesis by (rule release)
  next
    case Leaving
    with a nc i have "0 < wgCount s"
      and "s' = s\<lparr>wgCount := wgCount s - 1, workerPcs := (workerPcs s)[i := Done]\<rparr>"
      by (auto simp: advanceGoroutine_def split: if_splits)
    with nc i Leaving show thesis by (rule leave)
  next
    case Done
    with a nc i show thesis by (simp add: advanceGoroutine_def)
  qed
qed

lemma consistent_initial:
  "0 \<le> getAlmostMaxProcs E \<Longrightarrow> consistent E fis (initial E bookName)"
  by (simp add: consistent_def initial_def)

lemma not_finished_while_working:
  assumes "consistent E fis s" and "i < length (workerPcs s)" and "workerPcs s ! i \<noteq> Done"
  shows "scannerPc s \<noteq> Finished"
proof
  assume "scannerPc s = Finished"
  with assms(1) have "length (filter (\<lambda>w. w \<noteq> Done) (workerPcs s)) = 0"
    by (auto simp: consistent_def)
  then have "\<forall>w \<in> set (workerPcs s). w = Done"
    by (simp add: filter_empty_conv)
  with assms(2,3) show False
    using nth_mem by blast
qed

lemma consistent_step:
  assumes "advance E fis t s = Some s'" and "consistent E fis s"
  shows "consistent E fis s'"
  using assms(1)
proof (cases rule: advance_cases)
  case (dispatch k)
  with assms(2) show ?thesis
    by (simp add: consistent_def holdsSlot_def take_Suc_conv_app_nth)
next
  case (toc k)
  with assms(2) show ?thesis
    by (simp add: consistent_def take_Suc_conv_app_nth)
next
  case (contributors k cs)
  with assms(2) show ?thesis
    by (simp add: consistent_def take_Suc_conv_app_nth)
next
  case (contributors_panic k e)
  with assms(2) show ?thesis by (simp add: consistent_def)
next
  case (unexpected k e)
  with assms(2) show ?thesis by (simp add: consistent_def)
next
  case (loop_end k)
  with assms(2) show ?thesis by (simp add: consistent_def)
next
  case barrier
  with assms(2) show ?thesis by (simp add: consistent_def)
next
  case (parsed i c e)
  then have "scannerPc s \<noteq> Finished"
    using not_finished_while_working [OF assms(2), of i] by simp
  with parsed assms(2) show ?thesis
    by (simp add: consistent_def filter_update_same holdsSlot_def split: scanner.splits)
next
  case (parse_panic i e)
  with assms(2) show ?thesis by (simp add: consistent_def)
next
  case (test i)
  then have "scannerPc s \<noteq> Finished"
    using not_finished_while_working [OF assms(2), of i] by simp
  with test assms(2) show ?thesis
    by (simp add: consistent_def filter_update_same holdsSlot_def split: scanner.splits)
next
  case (copy i)
  then have "scannerPc s \<noteq> Finished"
    using not_finished_while_working [OF assms(2), of i] by simp
  with copy assms(2) show ?thesis
    by (simp add: consistent_def filter_update_same holdsSlot_def split: scanner.splits)
next
  case (release i)
  have "Suc (length (filter holdsSlot ((workerPcs s)[i := Leaving]))) = length (filter holdsSlot (workerPcs s))"
    using release by (intro filter_update_drop) (simp_all add: holdsSlot_def)
  moreover have "length (filter (\<lambda>w. w \<noteq> Done) ((workerPcs s)[i := Leaving]))
      = length (filter (\<lambda>w. w \<noteq> Done) (workerPcs s))"
    using release by (intro filter_update_same) simp_all
  moreover have "scannerPc s \<noteq> Finished"
    using not_finished_while_working [OF assms(2), of i] release by simp
  ultimately show ?thesis
    using release assms(2) by (simp add: consistent_def split: scanner.splits)
next
  case (leave i)
  have "Suc (length (filter (\<lambda>w. w \<noteq> Done) ((workerPcs s)[i := Done])))
      = length (filter (\<lambda>w. w \<noteq> Done) (workerPcs s))"
    using leave by (intro filter_update_drop) simp_all
  moreover have "length (filter holdsSlot ((workerPcs s)[i := Done]))
      = length (filter holdsSlot (workerPcs s))"
    using leave by (intro filter_update_same) (simp_all add: holdsSlot_def)
  moreover have "scannerPc s \<noteq> Finished"
    using not_finished_while_working [OF assms(2), of i] leave by simp
  ultimately show ?thesis
    using leave assms(2) by (simp add: consistent_def split: scanner.splits)
qed

lemma reachable_consistent:
  "reachable E bookName s \<Longrightarrow>
   consistent E (fst (ReadDir E (sourceDir (newBook E bookName)))) s"
  by (induction rule: reachable.induct) (simp_all add: consistent_initial consistent_step)

lemma filter_length_mono:
  "(\<And>x. P x \<Longrightarrow> Q x) \<Longrightarrow> length (filter P xs) \<le> length (filter Q xs)"
  by (induction xs) auto

text \<open>Never more than \<^verbatim>\<open>nProcs\<close> calls of \<^verbatim>\<open>parseChapter\<close> in flight.\<close>

lemma inFlight_bounded:
  assumes "reachable E bookName s"
  shows "int (inFlight s) \<le> getAlmostMaxProcs E"
proof -
  have "inFlight s \<le> length (filter holdsSlot (workerPcs s))"
    unfolding inFlight_def by (rule filter_length_mono) (simp add: holdsSlot_def)
  with reachable_consistent [OF assms] show ?thesis
    by (simp add: consistent_def)
qed

text \<open>Past the barrier every goroutine started is done, and there is one for each
  directory of the listing.\<close>

lemma all_done_after_barrier:
  assumes "reachable E bookName s" and "scannerPc s = Finished"
  shows "length (workerPcs s) = length (filter IsDir (fst (ReadDir E (sourceDir (newBook E bookName)))))"
    and "\<forall>w \<in> set (workerPcs s). w = Done"
proof -
  from reachable_consistent [OF assms(1)] assms(2)
  have c: "length (workerPcs s) = length (filter IsDir (fst (ReadDir E (sourceDir (newBook E bookName)))))"
    "length (filter (\<lambda>w. w \<noteq> Done) (workerPcs s)) = 0"
    by (auto simp: consistent_def)
  from c(1) show "length (workerPcs s) = length (filter IsDir (fst (ReadDir E (sourceDir (newBook E bookName)))))" .
  from c(2) show "\<forall>w \<in> set (workerPcs s). w = Done"
    by (simp add: filter_empty_conv)
qed

section \<open>A run that loses the error of a chapter\<close>

lemma race_listing:
  "ReadDir raceEnv (sourceDir (newBook raceEnv ''Go'')) =
     ([\<lparr>Name = ''020-more'', IsDir = True, IsRegular = False\<rparr>,
       \<lparr>Name = ''030-space'', IsDir = True, IsRegular = False\<rparr>], None)"
  by code_simp

lemma race_procs: "getAlmostMaxProcs raceEnv = 2"
  by (simp add: raceEnv_def sampleEnv_def)

lemma race_space:
  "fst (parseChapter raceEnv (newBook raceEnv ''Go'') (newChapter (newBook raceEnv ''Go'') ''030-space''))
     = Returned (spaceChapter, Some spaceError)"
  by code_simp

lemma race_more:
  "fst (parseChapter raceEnv (newBook raceEnv ''Go'') (newChapter (newBook raceEnv ''Go'') ''020-more''))
     = Returned (moreChapter, None)"
  by code_simp

lemma runSchedule_reachable:
  assumes "reachable E bookName s"
    and "runSchedule E (fst (ReadDir E (sourceDir (newBook E bookName)))) schedule s = Some s'"
  shows "reachable E bookName s'"
  using assms
proof (induction schedule arbitrary: s)
  case Nil
  then show ?case by simp
next
  case (Cons t schedule)
  from Cons.prems(2) obtain s1 where
    a: "advance E (fst (ReadDir E (sourceDir (newBook E bookName)))) t s = Some s1"
    and r: "runSchedule E (fst (ReadDir E (sourceDir (newBook E bookName)))) schedule s1 = Some s'"
    by (auto split: option.splits)
  from Cons.prems(1) a have "reachable E bookName s1"
    by (rule reachable.after_step)
  from Cons.IH [OF this r] show ?case .
qed

lemma race_schedule:
  "runSchedule raceEnv (fst (ReadDir raceEnv (sourceDir (newBook raceEnv ''Go'')))) raceSchedule
     (initial raceEnv ''Go'') = Some raceFinal"
  by code_simp

lemma race_run: "reachable raceEnv ''Go'' raceFinal"
proof -
  have "reachable raceEnv ''Go'' (initial raceEnv ''Go'')"
    by (rule reachable.at_start) (simp_all add: race_listing race_procs)
  from this race_schedule show ?thesis
    by (rule runSchedule_reachable)
qed

section \<open>The goroutines: the book does not depend on the run\<close>

lemma parseChapter_book:
  "sourceDir b = sourceDir b' \<Longrightarrow> parseChapter E b ch = parseChapter E b' ch"
  by (simp add: parseChapter_def)

lemma newChapter_book:
  "Book.Title b = Book.Title b' \<Longrightarrow> newChapter b name = newChapter b' name"
  by (simp add: newChapter_def)

lemma scannedBook_Nil [simp]: "scannedBook E [] book = book"
  by (simp add: scannedBook_def)

lemma scannedBook_snoc:
  "scannedBook E (fis @ [fi]) book =
     (let b = scannedBook E fis book in
      if \<not> IsDir fi \<and> ToLower E (FileInfo.Name fi) \<noteq> ''toc.txt''
         \<and> ToLower E (FileInfo.Name fi) = ''so_contributors.txt''
      then (case loadSoContributors E (Join E [sourceDir b, FileInfo.Name fi]) of
              Inr cs \<Rightarrow> b\<lparr>SoContributors := cs\<rparr>
            | Inl e \<Rightarrow> b)
      else b)"
  by (simp add: scannedBook_def Let_def)

lemma scannedBook_Cons:
  "scannedBook E (fi # fis) book =
     scannedBook E fis
       (if \<not> IsDir fi \<and> ToLower E (FileInfo.Name fi) \<noteq> ''toc.txt''
           \<and> ToLower E (FileInfo.Name fi) = ''so_contributors.txt''
        then (case loadSoContributors E (Join E [sourceDir book, FileInfo.Name fi]) of
                Inr cs \<Rightarrow> book\<lparr>SoContributors := cs\<rparr>
              | Inl e \<Rightarrow> book)
        else book)"
  by (simp add: scannedBook_def)

text \<open>The sequential function: the book and the chapters it arrives at.\<close>

lemma scanTopLevel_result:
  assumes "scanTopLevel E (sourceDir book) fis book chapters err2
             = (Returned (Inr (book', chapters', err2')), out)"
  shows "book' = scannedBook E fis book
     \<and> (\<exists>new. chapters' = chapters @ new
          \<and> list_all2 (\<lambda>c name. \<exists>e. fst (parseChapter E book (newChapter book name)) = Returned (c, e))
               new (map FileInfo.Name (filter IsDir fis)))"
  using assms
proof (induction fis arbitrary: book chapters err2 out)
  case Nil
  then show ?case by simp
next
  case (Cons fi fis)
  show ?case
  proof (cases "IsDir fi")
    case True
    with Cons.prems obtain ch err out1 out2 where
      pc: "parseChapter E book (newChapter book (FileInfo.Name fi)) = (Returned (ch, err), out1)"
      and rest: "scanTopLevel E (sourceDir book) fis book (chapters @ [ch])
                    (case err of None \<Rightarrow> err2 | Some e \<Rightarrow> Some e)
                  = (Returned (Inr (book', chapters', err2')), out2)"
      by (auto simp: after_output_def split: prod.splits outcome.splits) (metis prod.collapse)
    from Cons.IH [OF rest] obtain new where
      new: "book' = scannedBook E fis book" "chapters' = (chapters @ [ch]) @ new"
        "list_all2 (\<lambda>c name. \<exists>e. fst (parseChapter E book (newChapter book name)) = Returned (c, e))
               new (map FileInfo.Name (filter IsDir fis))"
      by blast
    have "\<exists>e. fst (parseChapter E book (newChapter book (FileInfo.Name fi))) = Returned (ch, e)"
      using pc by simp
    with new True show ?thesis
      by (intro conjI exI [of _ "ch # new"]) (simp_all add: scannedBook_Cons)
  next
    case False
    show ?thesis
    proof (cases "ToLower E (FileInfo.Name fi) = ''toc.txt''")
      case True
      with False Cons.prems have "scanTopLevel E (sourceDir book) fis book chapters err2
          = (Returned (Inr (book', chapters', err2')), out)"
        by (simp add: Let_def)
      from Cons.IH [OF this] False True show ?thesis
        by (simp add: scannedBook_Cons)
    next
      case nt: False
      with False Cons.prems obtain cs where
        so: "ToLower E (FileInfo.Name fi) = ''so_contributors.txt''"
        and ld: "loadSoContributors E (Join E [sourceDir book, FileInfo.Name fi]) = Inr cs"
        and rest: "scanTopLevel E (sourceDir book) fis (book\<lparr>SoContributors := cs\<rparr>) chapters err2
            = (Returned (Inr (book', chapters', err2')), out)"
        by (auto simp: Let_def split: if_splits sum.splits)
      let ?b = "book\<lparr>SoContributors := cs\<rparr>"
      have "scanTopLevel E (sourceDir ?b) fis ?b chapters err2
            = (Returned (Inr (book', chapters', err2')), out)"
        using rest by simp
      from Cons.IH [OF this] obtain new where
        new: "book' = scannedBook E fis ?b" "chapters' = chapters @ new"
          "list_all2 (\<lambda>c name. \<exists>e. fst (parseChapter E ?b (newChapter ?b name)) = Returned (c, e))
               new (map FileInfo.Name (filter IsDir fis))"
        by blast
      have same: "parseChapter E ?b (newChapter ?b name) = parseChapter E book (newChapter book name)"
        for name
        by (simp add: parseChapter_def newChapter_def)
      from new False nt so ld show ?thesis
        by (simp add: scannedBook_Cons same)
    qed
  qed
qed

lemma nth_filter_take:
  assumes "k < length fis" and "P (fis ! k)"
  shows "filter P fis ! length (filter P (take k fis)) = fis ! k"
proof -
  have "fis = take k fis @ fis ! k # drop (Suc k) fis"
    using assms(1) by (simp add: id_take_nth_drop)
  then have "filter P fis = filter P (take k fis) @ fis ! k # filter P (drop (Suc k) fis)"
    using assms(2) by (metis filter.simps(2) filter_append)
  then show ?thesis by (simp add: nth_append)
qed

lemma length_filter_take_less:
  assumes "k < length fis" and "P (fis ! k)"
  shows "length (filter P (take k fis)) < length (filter P fis)"
proof -
  have "fis = take k fis @ fis ! k # drop (Suc k) fis"
    using assms(1) by (simp add: id_take_nth_drop)
  then have "filter P fis = filter P (take k fis) @ fis ! k # filter P (drop (Suc k) fis)"
    using assms(2) by (metis filter.simps(2) filter_append)
  then show ?thesis by simp
qed

lemma chapterOf_later:
  "w \<noteq> Parsing \<Longrightarrow> w' \<noteq> Parsing \<Longrightarrow> chapterOf E book name w c = chapterOf E book name w' c"
  by (simp add: chapterOf_def)

lemma scannedBook_fields [simp]:
  "sourceDir (scannedBook E fis book) = sourceDir book"
  "Book.Title (scannedBook E fis book) = Book.Title book"
  by (induction fis rule: rev_induct) (simp_all add: scannedBook_snoc Let_def split: sum.splits)

lemma tracks_initial: "tracks E (newBook E bookName) fis (initial E bookName)"
  by (simp add: tracks_def initial_def)

lemma tracks_step:
  assumes "advance E fis t s = Some s'" and "consistent E fis s" and "tracks E book fis s"
  shows "tracks E book fis s'"
proof -
  let ?names = "map FileInfo.Name (filter IsDir fis)"
  from assms(3) have src: "sourceDir (theBook s) = sourceDir book"
    and title: "Book.Title (theBook s) = Book.Title book"
    and ch: "\<And>j. j < length (workerPcs s) \<Longrightarrow>
        chapterOf E book (?names ! j) (workerPcs s ! j) (chapterObjs s ! j)"
    by (simp_all add: tracks_def)
  from assms(2) have len: "length (chapterObjs s) = length (workerPcs s)"
    by (simp add: consistent_def)
  from assms(1) show ?thesis
  proof (cases rule: advance_cases)
    case (dispatch k)
    from assms(2) dispatch have n: "length (workerPcs s) = length (filter IsDir (take k fis))"
      by (simp add: consistent_def)
    have name: "?names ! length (workerPcs s) = FileInfo.Name (fis ! k)"
      using dispatch n nth_filter_take [of k fis IsDir] length_filter_take_less [of k fis IsDir]
      by simp
    have "chapterOf E book (?names ! j) ((workerPcs s @ [Parsing]) ! j)
            ((chapterObjs s @ [newChapter (theBook s) (FileInfo.Name (fis ! k))]) ! j)"
      if "j < Suc (length (workerPcs s))" for j
    proof (cases "j < length (workerPcs s)")
      case True
      with ch [OF True] len show ?thesis by (simp add: nth_append)
    next
      case False
      with that have "j = length (workerPcs s)" by simp
      with name len newChapter_book [OF title] show ?thesis
        by (simp add: nth_append chapterOf_def)
    qed
    with assms(3) dispatch show ?thesis
      by (simp add: tracks_def take_Suc_conv_app_nth scannedBook_snoc)
  next
    case (toc k)
    with assms(3) show ?thesis
      by (simp add: tracks_def take_Suc_conv_app_nth scannedBook_snoc)
  next
    case (contributors k cs)
    with assms(3) show ?thesis
      by (simp add: tracks_def take_Suc_conv_app_nth scannedBook_snoc)
  next
    case (contributors_panic k e)
    with assms(3) show ?thesis by (simp add: tracks_def)
  next
    case (unexpected k e)
    with assms(3) show ?thesis by (simp add: tracks_def)
  next
    case (loop_end k)
    moreover from assms(2) loop_end have "k \<le> length fis" by (simp add: consistent_def)
    ultimately show ?thesis using assms(3) by (simp add: tracks_def)
  next
    case barrier
    with assms(3) show ?thesis by (simp add: tracks_def)
  next
    case (parsed i c e)
    have "chapterObjs s ! i = newChapter book (?names ! i)"
      using ch [of i] parsed by (simp add: chapterOf_def)
    then have "fst (parseChapter E book (newChapter book (?names ! i))) = Returned (c, e)"
      using parsed parseChapter_book [OF src] by simp
    then have new: "chapterOf E book (?names ! i) Assigned c"
      by (simp add: chapterOf_def)
    have "chapterOf E book (?names ! j) ((workerPcs s)[i := Assigned] ! j) ((chapterObjs s)[i := c] ! j)"
      if "j < length (workerPcs s)" for j
      using that ch [OF that] new len by (cases "j = i") simp_all
    with assms(3) parsed show ?thesis
      by (simp add: tracks_def split: scanner.splits)
  next
    case (parse_panic i e)
    with assms(3) show ?thesis by (simp add: tracks_def)
  next
    case (test i)
    have "chapterOf E book (?names ! j)
        ((workerPcs s)[i := if errVar s \<noteq> None then Copying else Releasing] ! j) (chapterObjs s ! j)"
      if "j < length (workerPcs s)" for j
      using that ch [OF that] test chapterOf_later [of Assigned _ E book "?names ! i" "chapterObjs s ! i"]
      by (cases "j = i") auto
    with assms(3) test show ?thesis
      by (simp add: tracks_def split: scanner.splits)
  next
    case (copy i)
    have "chapterOf E book (?names ! j) ((workerPcs s)[i := Releasing] ! j) (chapterObjs s ! j)"
      if "j < length (workerPcs s)" for j
      using that ch [OF that] copy chapterOf_later [of Copying Releasing E book "?names ! i" "chapterObjs s ! i"]
      by (cases "j = i") auto
    with assms(3) copy show ?thesis
      by (simp add: tracks_def split: scanner.splits)
  next
    case (release i)
    have "chapterOf E book (?names ! j) ((workerPcs s)[i := Leaving] ! j) (chapterObjs s ! j)"
      if "j < length (workerPcs s)" for j
      using that ch [OF that] release chapterOf_later [of Releasing Leaving E book "?names ! i" "chapterObjs s ! i"]
      by (cases "j = i") auto
    with assms(3) release show ?thesis
      by (simp add: tracks_def split: scanner.splits)
  next
    case (leave i)
    have "chapterOf E book (?names ! j) ((workerPcs s)[i := Done] ! j) (chapterObjs s ! j)"
      if "j < length (workerPcs s)" for j
      using that ch [OF that] leave chapterOf_later [of Leaving Done E book "?names ! i" "chapterObjs s ! i"]
      by (cases "j = i") auto
    with assms(3) leave show ?thesis
      by (simp add: tracks_def split: scanner.splits)
  qed
qed

lemma reachable_tracks:
  "reachable E bookName s \<Longrightarrow>
   tracks E (newBook E bookName) (fst (ReadDir E (sourceDir (newBook E bookName)))) s"
proof (induction rule: reachable.induct)
  case at_start
  then show ?case by (simp add: tracks_initial)
next
  case (after_step s s')
  from after_step(2) reachable_consistent [OF after_step(1)] after_step(3)
  show ?case by (rule tracks_step)
qed

lemma finished_state_determined:
  assumes "reachable E bookName s" and "scannerPc s = Finished"
    and "scanTopLevel E (sourceDir (newBook E bookName))
           (fst (ReadDir E (sourceDir (newBook E bookName)))) (newBook E bookName) [] None
         = (Returned (Inr (book1, chapters, e2)), out)"
  shows "theBook s = book1" and "chapterObjs s = chapters"
proof -
  let ?b0 = "newBook E bookName"
  let ?fis = "fst (ReadDir E (sourceDir ?b0))"
  let ?names = "map FileInfo.Name (filter IsDir ?fis)"
  note c = reachable_consistent [OF assms(1)]
  note t = reachable_tracks [OF assms(1)]
  from scanTopLevel_result [OF assms(3)] have b1: "book1 = scannedBook E ?fis ?b0"
    and seq: "list_all2 (\<lambda>c name. \<exists>e. fst (parseChapter E ?b0 (newChapter ?b0 name)) = Returned (c, e))
               chapters ?names"
    by simp_all
  from t assms(2) b1 show "theBook s = book1"
    by (simp add: tracks_def)
  have lw: "length (workerPcs s) = length ?names"
    using all_done_after_barrier(1) [OF assms(1,2)] by simp
  have lc: "length (chapterObjs s) = length (workerPcs s)"
    using c by (simp add: consistent_def)
  have ls: "length chapters = length ?names"
    using seq by (rule list_all2_lengthD)
  show "chapterObjs s = chapters"
  proof (rule nth_equalityI)
    show "length (chapterObjs s) = length chapters"
      using lw lc ls by simp
  next
    fix j assume "j < length (chapterObjs s)"
    then have j: "j < length (workerPcs s)" using lc by simp
    have "workerPcs s ! j = Done"
      using all_done_after_barrier(2) [OF assms(1,2)] j by simp
    moreover from t j have "chapterOf E ?b0 (?names ! j) (workerPcs s ! j) (chapterObjs s ! j)"
      by (simp add: tracks_def)
    ultimately have run: "case fst (parseChapter E ?b0 (newChapter ?b0 (?names ! j))) of
        Returned (c', e) \<Rightarrow> chapterObjs s ! j = c' | _ \<Rightarrow> False"
      by (simp add: chapterOf_def)
    from seq j lw ls obtain e where
      "fst (parseChapter E ?b0 (newChapter ?b0 (?names ! j))) = Returned (chapters ! j, e)"
      by (auto simp: list_all2_conv_all_nth)
    with run show "chapterObjs s ! j = chapters ! j" by simp
  qed
qed

lemma afterBarrier_err2:
  assumes "fst (afterBarrier E bookName book chapters e) = Returned (Some b, e')"
  shows "e' = e" and "fst (afterBarrier E bookName book chapters e2) = Returned (Some b, e2)"
  using assms
  by (auto simp: afterBarrier_def Let_def split: prod.splits outcome.splits)

text \<open>Every run that gets past the barrier returns the book the sequential function
  returns; only \<^verbatim>\<open>err2\<close> depends on the run.\<close>

lemma same_book_in_every_run:
  assumes "parseBook E bookName = (Returned (Some book, err2), out)"
    and "reachable E bookName s" and "scannerPc s = Finished"
  shows "returnAfterBarrier E bookName s = Returned (Some book, err2Var s)"
proof -
  let ?b0 = "newBook E bookName"
  from assms(1) obtain fileInfos where rd: "ReadDir E (sourceDir ?b0) = (fileInfos, None)"
    by (auto simp: parseBook_def Let_def split: prod.splits option.splits)
  from assms(1) rd obtain book1 chapters e2 out1 where
    sc: "scanTopLevel E (sourceDir ?b0) fileInfos ?b0 [] None = (Returned (Inr (book1, chapters, e2)), out1)"
    and ab: "fst (afterBarrier E bookName book1 chapters e2) = Returned (Some book, err2)"
    by (auto simp: parseBook_def Let_def after_output_def split: prod.splits outcome.splits sum.splits)
  from sc rd have "scanTopLevel E (sourceDir ?b0) (fst (ReadDir E (sourceDir ?b0))) ?b0 [] None
      = (Returned (Inr (book1, chapters, e2)), out1)"
    by simp
  from finished_state_determined [OF assms(2,3) this] afterBarrier_err2(2) [OF ab]
  show ?thesis by (simp add: returnAfterBarrier_def)
qed

lemma raceBook_sequential:
  "fst (parseBook raceEnv ''Go'') = Returned (Some raceBook, Some spaceError)"
  by code_simp

lemma raceBook_returned:
  "returnAfterBarrier raceEnv ''Go'' raceFinal = Returned (Some raceBook, None)"
  by code_simp

section \<open>The goroutines: a chapter without a title ends the process\<close>

lemma reachable_listing:
  "reachable E bookName s \<Longrightarrow> snd (ReadDir E (sourceDir (newBook E bookName))) = None"
  by (induction rule: reachable.induct)

lemma afterBarrier_Exited:
  assumes "fst (afterBarrier E bookName book chapters e) = Exited n"
  shows "fst (afterBarrier E bookName book chapters e2) = Exited n"
  using assms
  by (auto simp: afterBarrier_def Let_def split: prod.splits outcome.splits)

text \<open>When the sequential function gets through the loop and then ends the process in
  \<^verbatim>\<open>ensureUniqueIds\<close>, so does every run that gets past the barrier.\<close>

lemma exit_in_every_run:
  assumes "fst (parseBook E bookName) = Exited n"
    and "fst (scanTopLevel E (sourceDir (newBook E bookName))
           (fst (ReadDir E (sourceDir (newBook E bookName)))) (newBook E bookName) [] None)
         = Returned (Inr r)"
    and "reachable E bookName s" and "scannerPc s = Finished"
  shows "returnAfterBarrier E bookName s = Exited n"
proof -
  let ?b0 = "newBook E bookName"
  obtain book1 chapters e2 where r: "r = (book1, chapters, e2)"
    by (cases r)
  obtain fis where rd: "ReadDir E (sourceDir ?b0) = (fis, None)"
    using reachable_listing [OF assms(3)] by (metis prod.collapse)
  obtain out where sc: "scanTopLevel E (sourceDir ?b0) fis ?b0 [] None
      = (Returned (Inr (book1, chapters, e2)), out)"
    using assms(2) r rd by (metis fst_conv prod.collapse)
  have "fst (parseBook E bookName) = fst (afterBarrier E bookName book1 chapters e2)"
    using rd sc by (simp add: parseBook_def Let_def)
  with assms(1) have "fst (afterBarrier E bookName book1 chapters e2) = Exited n"
    by simp
  then have ex: "fst (afterBarrier E bookName book1 chapters (err2Var s)) = Exited n"
    by (rule afterBarrier_Exited)
  from sc rd have "scanTopLevel E (sourceDir ?b0) (fst (ReadDir E (sourceDir ?b0))) ?b0 [] None
      = (Returned (Inr (book1, chapters, e2)), out)"
    by simp
  from finished_state_determined [OF assms(3,4) this] ex show ?thesis
    by (simp add: returnAfterBarrier_def)
qed

lemma untitled_listing:
  "ReadDir untitledEnv (sourceDir (newBook untitledEnv ''Go'')) =
     ([\<lparr>Name = ''020-more'', IsDir = True, IsRegular = False\<rparr>,
       \<lparr>Name = ''050-untitled'', IsDir = True, IsRegular = False\<rparr>], None)"
  by code_simp

lemma untitled_procs: "getAlmostMaxProcs untitledEnv = 2"
  by (simp add: untitledEnv_def sampleEnv_def)

lemma untitled_parse:
  "fst (parseChapter untitledEnv (newBook untitledEnv ''Go'')
          (newChapter (newBook untitledEnv ''Go'') ''050-untitled''))
     = Returned (untitledChapter, Some untitledError)"
  by code_simp

lemma untitled_loop:
  "fst (scanTopLevel untitledEnv (sourceDir (newBook untitledEnv ''Go''))
          (fst (ReadDir untitledEnv (sourceDir (newBook untitledEnv ''Go''))))
          (newBook untitledEnv ''Go'') [] None)
     = Returned (Inr (newBook untitledEnv ''Go'', [moreChapter, untitledChapter], Some untitledError))"
  by code_simp

lemma untitled_schedule:
  "runSchedule untitledEnv (fst (ReadDir untitledEnv (sourceDir (newBook untitledEnv ''Go''))))
     untitledSchedule (initial untitledEnv ''Go'') = Some untitledFinal"
  by code_simp

lemma untitled_run: "reachable untitledEnv ''Go'' untitledFinal"
proof -
  have "reachable untitledEnv ''Go'' (initial untitledEnv ''Go'')"
    by (rule reachable.at_start) (simp_all add: untitled_listing untitled_procs)
  from this untitled_schedule show ?thesis
    by (rule runSchedule_reachable)
qed


section \<open>The claims\<close>



text \<open>
  \<^bold>\<open>C8.\<close> In a book that \<^verbatim>\<open>parseBook\<close> returns, the chapters are numbered \<open>1, 2, \<dots>\<close> in the
  order of the list; the list is the chapter directories in the order of the directory
  listing followed by the contributors chapter, which is made by
  \<^verbatim>\<open>genContributorsChapter\<close> and not read from disk; and in each chapter the articles are
  numbered \<open>1, 2, \<dots>\<close> in the order of the article files in the listing of the chapter
  directory. The numbers are given by position after all chapters are parsed, and every
  run of the goroutines that gets past \<^verbatim>\<open>wg.Wait()\<close> returns this same book, in whatever
  order they took their steps.
\<close>

theorem chapters_and_articles_numbered:
  assumes "parseBook E bookName = (Returned (Some book, err2), out)"
  shows "let srcDir = Join E [''books'', MakeURLSafe E bookName] in
      map Chapter.No (Chapters book) = map int [1..<Suc (length (Chapters book))]
    \<and> butlast (map ChapterDir (Chapters book)) = map FileInfo.Name (filter IsDir (fst (ReadDir E srcDir)))
    \<and> Chapters book \<noteq> []
    \<and> last (Chapters book) = (genContributorsChapter book)\<lparr>Chapter.No := int (length (Chapters book))\<rparr>
    \<and> (\<forall>c \<in> set (Chapters book).
          map Article.No (Articles c) = map int [1..<Suc (length (Articles c))]
        \<and> (Articles c = [] \<or>
           map sourceFilePath (Articles c) =
             map (\<lambda>fi. Join E [Join E [srcDir, ChapterDir c], FileInfo.Name fi])
               (articleFiles E (fst (ReadDir E (Join E [srcDir, ChapterDir c]))))))
    \<and> (\<forall>s. reachable E bookName s \<and> scannerPc s = Finished \<longrightarrow>
          returnAfterBarrier E bookName s = Returned (Some book, err2Var s))"
proof -
  let ?src = "Join E [''books'', MakeURLSafe E bookName]"
  from assms obtain fileInfos book0 book1 chapters out1 where
    rd: "ReadDir E ?src = (fileInfos, None)" and
    sc: "scanTopLevel E ?src fileInfos book0 [] None = (Returned (Inr (book1, chapters, err2)), out1)" and
    ch: "Chapters book = numberChapters (chapters @ [genContributorsChapter book1])" and
    gc: "genContributorsChapter book1 = genContributorsChapter book"
    by (rule parseBook_Some)
  let ?cs = "chapters @ [genContributorsChapter book1]"
  have no: "map Chapter.No (Chapters book) = map int [1..<Suc (length (Chapters book))]"
    by (simp add: ch map_No_numberChapters del: upt_Suc)
  have "map ChapterDir (Chapters book) = map ChapterDir ?cs"
    unfolding ch by (rule map_numberChapters) simp
  moreover from scanTopLevel_Inr(1) [OF sc]
  have "map ChapterDir chapters = map FileInfo.Name (filter IsDir fileInfos)" by auto
  ultimately have dirs: "butlast (map ChapterDir (Chapters book))
      = map FileInfo.Name (filter IsDir (fst (ReadDir E ?src)))"
    by (simp add: rd)
  have ne: "Chapters book \<noteq> []"
    using ch by (metis length_numberChapters length_0_conv snoc_eq_iff_butlast)
  have len: "length (Chapters book) = Suc (length chapters)"
    by (simp add: ch)
  have "last (Chapters book) = Chapters book ! length chapters"
    using ne len by (simp add: last_conv_nth)
  also have "\<dots> = (?cs ! length chapters)\<lparr>Chapter.No := int (length chapters) + 1\<rparr>"
    unfolding ch by (rule nth_numberChapters) simp
  finally have lst: "last (Chapters book)
      = (genContributorsChapter book)\<lparr>Chapter.No := int (length (Chapters book))\<rparr>"
    by (simp add: gc len add.commute)
  have arts: "map Article.No (Articles c) = map int [1..<Suc (length (Articles c))]
        \<and> (Articles c = [] \<or>
           map sourceFilePath (Articles c) =
             map (\<lambda>fi. Join E [Join E [?src, ChapterDir c], FileInfo.Name fi])
               (articleFiles E (fst (ReadDir E (Join E [?src, ChapterDir c])))))"
    if "c \<in> set (Chapters book)" for c
    using assms that
  proof (cases rule: parseBook_chapter_cases)
    case (parsed b x err out' n)
    from parseChapter_articles [OF parsed(1)] obtain articles where
      a: "Articles x = buildArticleSiblings articles"
         "map Article.No articles = map int [1..<Suc (length articles)]"
         "articles = [] \<or> map sourceFilePath articles =
           map (\<lambda>fi. Join E [Join E [sourceDir b, ChapterDir (newChapter b (ChapterDir c))], FileInfo.Name fi])
             (articleFiles E (fst (ReadDir E (Join E [sourceDir b, ChapterDir (newChapter b (ChapterDir c))]))))"
      by auto
    have ac: "Articles c = buildArticleSiblings articles"
      using parsed(3) a(1) by simp
    have e: "buildArticleSiblings articles = [] \<longleftrightarrow> articles = []"
      by (metis length_buildArticleSiblings length_0_conv)
    from a(2,3) show ?thesis
      unfolding ac by (auto simp: parsed(2) e simp del: upt_Suc)
  next
    case (contributors b n)
    then show ?thesis by simp
  qed
  have runs: "\<forall>s. reachable E bookName s \<and> scannerPc s = Finished \<longrightarrow>
          returnAfterBarrier E bookName s = Returned (Some book, err2Var s)"
    using same_book_in_every_run [OF assms] by blast
  from no dirs ne lst arts runs show ?thesis
    unfolding Let_def by blast
qed

theorem chapters_and_articles_numbered_witness:
  "map Chapter.No (Chapters sampleBook) = [1, 2, 3]
   \<and> map ChapterDir (Chapters sampleBook) = [''010-basics'', ''020-more'', '''']
   \<and> Chapter.Title (last (Chapters sampleBook)) = ''Contributors''
   \<and> map (\<lambda>c. map Article.No (Articles c)) (Chapters sampleBook) = [[1, 2], [1], []]
   \<and> map (\<lambda>c. map sourceFilePath (Articles c)) (Chapters sampleBook) =
       [[''books/go/010-basics/010-intro.md'', ''books/go/010-basics/020-snippet.MD''],
        [''books/go/020-more/010-html.md''], []]
   \<and> fst (parseBook raceEnv ''Go'') = Returned (Some raceBook, Some spaceError)
   \<and> reachable raceEnv ''Go'' raceFinal \<and> scannerPc raceFinal = Finished
   \<and> returnAfterBarrier raceEnv ''Go'' raceFinal = Returned (Some raceBook, err2Var raceFinal)"
proof -
  have p: "parseBook sampleEnv ''Go'' = (Returned (Some sampleBook, None), snd (parseBook sampleEnv ''Go''))"
    using sampleBook_parsed by (metis prod.collapse)
  have "\<forall>c \<in> set (Chapters sampleBook).
          map Article.No (Articles c) = map int [1..<Suc (length (Articles c))]"
    using chapters_and_articles_numbered [OF p] unfolding Let_def by blast
  then have sample: "map Chapter.No (Chapters sampleBook) = [1, 2, 3]
     \<and> map ChapterDir (Chapters sampleBook) = [''010-basics'', ''020-more'', '''']
     \<and> Chapter.Title (last (Chapters sampleBook)) = ''Contributors''
     \<and> map (\<lambda>c. map Article.No (Articles c)) (Chapters sampleBook) = [[1, 2], [1], []]
     \<and> map (\<lambda>c. map sourceFilePath (Articles c)) (Chapters sampleBook) =
         [[''books/go/010-basics/010-intro.md'', ''books/go/010-basics/020-snippet.MD''],
          [''books/go/020-more/010-html.md''], []]"
    by (simp add: sampleBook_def sampleChapters_def sampleIntro_def sampleSnippet_def sampleHtml_def)
  have q: "parseBook raceEnv ''Go''
      = (Returned (Some raceBook, Some spaceError), snd (parseBook raceEnv ''Go''))"
    using raceBook_sequential by (metis prod.collapse)
  have f: "scannerPc raceFinal = Finished"
    by (simp add: raceFinal_def raceState_def)
  have "returnAfterBarrier raceEnv ''Go'' raceFinal = Returned (Some raceBook, err2Var raceFinal)"
    using chapters_and_articles_numbered [OF q] race_run f unfolding Let_def by blast
  with sample raceBook_sequential race_run f show ?thesis by blast
qed






text \<open>
  \<^bold>\<open>C4.\<close> Include expansion fails exactly when the file cannot be read or the extraction
  for one of its \<^verbatim>\<open>@file\<close> lines fails. When it fails, \<^verbatim>\<open>paarseKVFileWithIncludes\<close>
  returns what \<^verbatim>\<open>kvstore.ParseKVFile\<close> returns on the path itself, the file with its
  directive lines as they are. When it succeeds, the tokenizer \<^verbatim>\<open>kvstore.ParseKVLines\<close> gets
  the lines of the file with each \<^verbatim>\<open>@file\<close> line replaced by the lines extracted for it, in
  order.
\<close>

theorem include_expansion_or_raw_file:
  "(snd (fst (processFileIncludes E path)) \<noteq> None \<longleftrightarrow>
      snd (ReadFileAsLines E path) \<noteq> None \<or> failingInclude E path (fst (ReadFileAsLines E path)))
   \<and> (snd (fst (processFileIncludes E path)) \<noteq> None \<longrightarrow>
        fst (paarseKVFileWithIncludes E path) = ParseKVFile E path)
   \<and> (snd (fst (processFileIncludes E path)) = None \<longrightarrow>
        fst (paarseKVFileWithIncludes E path)
          = ParseKVLines E (expandIncludes E path (fst (ReadFileAsLines E path))))"
proof -
  obtain lines err out where p: "processFileIncludes E path = ((lines, err), out)"
    by (metis prod.collapse)
  have "snd (fst (processFileIncludes E path)) \<noteq> None \<longrightarrow>
        fst (paarseKVFileWithIncludes E path) = ParseKVFile E path"
    using p by (auto simp: paarseKVFileWithIncludes_def)
  moreover have "snd (fst (processFileIncludes E path)) = None \<longrightarrow>
        fst (paarseKVFileWithIncludes E path)
          = ParseKVLines E (expandIncludes E path (fst (ReadFileAsLines E path)))"
    using p processFileIncludes_result [of E path] by (auto simp: paarseKVFileWithIncludes_def)
  ultimately show ?thesis
    using processFileIncludes_result [of E path] by blast
qed

theorem include_expansion_or_raw_file_witness:
  "failingInclude sampleEnv ''books/go/010-basics/030-broken.md''
      (fst (ReadFileAsLines sampleEnv ''books/go/010-basics/030-broken.md''))
   \<and> fst (paarseKVFileWithIncludes sampleEnv ''books/go/010-basics/030-broken.md'')
       = ParseKVFile sampleEnv ''books/go/010-basics/030-broken.md''
   \<and> ParseKVFile sampleEnv ''books/go/010-basics/030-broken.md''
       = ([\<lparr>Key = ''Id'', Value = ''44''\<rparr>,
           \<lparr>Key = ''Body'', Value = ''see'' @ nl @ ''@file snippets/missing.go''\<rparr>], None)
   \<and> snd (fst (processFileIncludes sampleEnv ''books/go/010-basics/020-snippet.MD'')) = None
   \<and> expandIncludes sampleEnv ''books/go/010-basics/020-snippet.MD''
        (fst (ReadFileAsLines sampleEnv ''books/go/010-basics/020-snippet.MD''))
       = [''Id: 43'', ''Title: Snippet'', ''Body: see'', ''package main'', ''func main() {}'']
   \<and> fst (paarseKVFileWithIncludes sampleEnv ''books/go/010-basics/020-snippet.MD'')
       = ParseKVLines sampleEnv
           [''Id: 43'', ''Title: Snippet'', ''Body: see'', ''package main'', ''func main() {}'']"
proof -
  let ?broken = "''books/go/010-basics/030-broken.md''"
  let ?snippet = "''books/go/010-basics/020-snippet.MD''"
  have f: "failingInclude sampleEnv ?broken (fst (ReadFileAsLines sampleEnv ?broken))"
    by code_simp
  have raw: "ParseKVFile sampleEnv ?broken
       = ([\<lparr>Key = ''Id'', Value = ''44''\<rparr>,
           \<lparr>Key = ''Body'', Value = ''see'' @ nl @ ''@file snippets/missing.go''\<rparr>], None)"
    by code_simp
  have ok: "\<not> (snd (ReadFileAsLines sampleEnv ?snippet) \<noteq> None
      \<or> failingInclude sampleEnv ?snippet (fst (ReadFileAsLines sampleEnv ?snippet)))"
    by code_simp
  have ex: "expandIncludes sampleEnv ?snippet (fst (ReadFileAsLines sampleEnv ?snippet))
       = [''Id: 43'', ''Title: Snippet'', ''Body: see'', ''package main'', ''func main() {}'']"
    by code_simp
  from include_expansion_or_raw_file [of sampleEnv ?broken]
    include_expansion_or_raw_file [of sampleEnv ?snippet] f raw ok ex
  show ?thesis by simp
qed

text \<open>
  \<^bold>\<open>C5.\<close> When the document of a file has the entries \<^verbatim>\<open>Id=42\<close>, \<^verbatim>\<open>Title=Intro\<close>,
  \<^verbatim>\<open>Body=hello\<close>, \<^verbatim>\<open>parseArticle\<close> returns the article with identifier \<^verbatim>\<open>42\<close>, title
  \<^verbatim>\<open>Intro\<close>, markdown body \<^verbatim>\<open>hello\<close> and file name base \<^verbatim>\<open>a-42-\<close> followed by
  \<^verbatim>\<open>MakeURLSafe("Intro")\<close>, which is \<^verbatim>\<open>a-42-intro\<close> when \<^verbatim>\<open>MakeURLSafe\<close> turns \<^verbatim>\<open>Intro\<close> into
  \<^verbatim>\<open>intro\<close>. In general the file name base of a parsed article is \<^verbatim>\<open>a-\<close>, its identifier,
  \<^verbatim>\<open>-\<close>, and \<^verbatim>\<open>MakeURLSafe\<close> of its title.
\<close>

theorem parseArticle_example:
  "(fst (paarseKVFileWithIncludes E path) =
      ([\<lparr>Key = ''Id'', Value = ''42''\<rparr>, \<lparr>Key = ''Title'', Value = ''Intro''\<rparr>,
        \<lparr>Key = ''Body'', Value = ''hello''\<rparr>], None) \<longrightarrow>
      fst (parseArticle E path) =
        Returned (Inr (newArticle path ''42'' ''Intro'' (''a-42-'' @ MakeURLSafe E ''Intro'') ''hello'' ''''))
      \<and> (MakeURLSafe E ''Intro'' = ''intro'' \<longrightarrow>
          fst (parseArticle E path) =
            Returned (Inr (newArticle path ''42'' ''Intro'' ''a-42-intro'' ''hello'' ''''))))
   \<and> (fst (parseArticle E path') = Returned (Inr a) \<longrightarrow>
        Article.FileNameBase a = ''a-'' @ Article.ID a @ ''-'' @ MakeURLSafe E (Article.Title a))"
proof -
  have "fst (parseArticle E path) =
        Returned (Inr (newArticle path ''42'' ''Intro'' (''a-42-'' @ MakeURLSafe E ''Intro'') ''hello'' ''''))"
    if "fst (paarseKVFileWithIncludes E path) =
      ([\<lparr>Key = ''Id'', Value = ''42''\<rparr>, \<lparr>Key = ''Title'', Value = ''Intro''\<rparr>,
        \<lparr>Key = ''Body'', Value = ''hello''\<rparr>], None)"
  proof -
    from that obtain out0 where "paarseKVFileWithIncludes E path =
      (([\<lparr>Key = ''Id'', Value = ''42''\<rparr>, \<lparr>Key = ''Title'', Value = ''Intro''\<rparr>,
        \<lparr>Key = ''Body'', Value = ''hello''\<rparr>], None), out0)"
      by (rule paarse_split)
    then show ?thesis
      by (simp add: parseArticle_def GetValueSilent_def Contains_space_def defTitle_def Let_def)
  qed
  moreover have "Article.FileNameBase a = ''a-'' @ Article.ID a @ ''-'' @ MakeURLSafe E (Article.Title a)"
    if "fst (parseArticle E path') = Returned (Inr a)"
    using parseArticle_Inr(5) [of E path' a "snd (parseArticle E path')"] that
    by (metis prod.collapse)
  ultimately show ?thesis by auto
qed

theorem parseArticle_example_witness:
  "fst (paarseKVFileWithIncludes sampleEnv ''books/go/010-basics/010-intro.md'') =
      ([\<lparr>Key = ''Id'', Value = ''42''\<rparr>, \<lparr>Key = ''Title'', Value = ''Intro''\<rparr>,
        \<lparr>Key = ''Body'', Value = ''hello''\<rparr>], None)
   \<and> MakeURLSafe sampleEnv ''Intro'' = ''intro''
   \<and> fst (parseArticle sampleEnv ''books/go/010-basics/010-intro.md'') =
        Returned (Inr (newArticle ''books/go/010-basics/010-intro.md'' ''42'' ''Intro'' ''a-42-intro''
          ''hello'' ''''))
   \<and> Article.FileNameBase (newArticle ''books/go/010-basics/010-intro.md'' ''42'' ''Intro'' ''a-42-intro''
          ''hello'' '''')
       = ''a-'' @ ''42'' @ ''-'' @ MakeURLSafe sampleEnv ''Intro''"
proof -
  let ?p = "''books/go/010-basics/010-intro.md''"
  have d: "fst (paarseKVFileWithIncludes sampleEnv ?p) =
      ([\<lparr>Key = ''Id'', Value = ''42''\<rparr>, \<lparr>Key = ''Title'', Value = ''Intro''\<rparr>,
        \<lparr>Key = ''Body'', Value = ''hello''\<rparr>], None)"
    by code_simp
  have m: "MakeURLSafe sampleEnv ''Intro'' = ''intro''"
    by code_simp
  from parseArticle_example [of sampleEnv ?p ?p
      "newArticle ?p ''42'' ''Intro'' ''a-42-intro'' ''hello'' ''''"] d m
  show ?thesis by simp
qed

text \<open>
  \<^bold>\<open>C6.\<close> For a file whose document parses and has an \<^verbatim>\<open>Id\<close> without a space: with a
  \<^verbatim>\<open>Body\<close> entry \<^verbatim>\<open>parseArticle\<close> returns an article whose markdown body is its value and
  whose HTML body is empty; without \<^verbatim>\<open>Body\<close> but with \<^verbatim>\<open>BodyHtml\<close> it returns an article whose
  HTML body is that value as it is; with neither it returns an error, and the last thing
  printed is the dump of every entry of the document. So an article is returned exactly
  when one of the two entries is there.
\<close>

theorem parseArticle_body_fields:
  assumes "fst (paarseKVFileWithIncludes E path) = (doc, None)"
    and "lookup doc ''Id'' = Some ident" and "\<not> Contains_space ident"
  shows "(\<forall>body. lookup doc ''Body'' = Some body \<longrightarrow>
            (\<exists>a. fst (parseArticle E path) = Returned (Inr a)
               \<and> BodyMarkdown a = body \<and> BodyHTML a = ''''))
    \<and> (\<forall>html. lookup doc ''Body'' = None \<and> lookup doc ''BodyHtml'' = Some html \<longrightarrow>
            (\<exists>a. fst (parseArticle E path) = Returned (Inr a)
               \<and> BodyMarkdown a = '''' \<and> BodyHTML a = html))
    \<and> (lookup doc ''Body'' = None \<and> lookup doc ''BodyHtml'' = None \<longrightarrow>
            (\<exists>e. fst (parseArticle E path) = Returned (Inl e))
          \<and> (\<exists>pre. snd (parseArticle E path) = pre @ dumpKV E doc))
    \<and> ((\<exists>a. fst (parseArticle E path) = Returned (Inr a)) \<longleftrightarrow>
          lookup doc ''Body'' \<noteq> None \<or> lookup doc ''BodyHtml'' \<noteq> None)"
proof -
  note b = parseArticle_body [OF assms]
  have 1: "\<forall>body. lookup doc ''Body'' = Some body \<longrightarrow>
            (\<exists>a. fst (parseArticle E path) = Returned (Inr a)
               \<and> BodyMarkdown a = body \<and> BodyHTML a = '''')"
    using b(1) by simp
  have 2: "\<forall>html. lookup doc ''Body'' = None \<and> lookup doc ''BodyHtml'' = Some html \<longrightarrow>
            (\<exists>a. fst (parseArticle E path) = Returned (Inr a)
               \<and> BodyMarkdown a = '''' \<and> BodyHTML a = html)"
    using b(2) by simp
  have 3: "lookup doc ''Body'' = None \<and> lookup doc ''BodyHtml'' = None \<longrightarrow>
            (\<exists>e. fst (parseArticle E path) = Returned (Inl e))
          \<and> (\<exists>pre. snd (parseArticle E path) = pre @ dumpKV E doc)"
    using b(3) by blast
  have 4: "(\<exists>a. fst (parseArticle E path) = Returned (Inr a)) \<longleftrightarrow>
          lookup doc ''Body'' \<noteq> None \<or> lookup doc ''BodyHtml'' \<noteq> None"
  proof (cases "lookup doc ''Body''")
    case (Some body)
    with 1 show ?thesis by auto
  next
    case None
    show ?thesis
    proof (cases "lookup doc ''BodyHtml''")
      case (Some html)
      with None 2 show ?thesis by auto
    next
      case n: None
      with None 3 show ?thesis by auto
    qed
  qed
  from 1 2 3 4 show ?thesis by blast
qed

theorem parseArticle_body_fields_witness:
  "fst (paarseKVFileWithIncludes sampleEnv ''books/go/020-more/040-nobody.md'')
     = ([\<lparr>Key = ''Id'', Value = ''48''\<rparr>, \<lparr>Key = ''Title'', Value = ''Nobody''\<rparr>], None)
   \<and> lookup [\<lparr>Key = ''Id'', Value = ''48''\<rparr>, \<lparr>Key = ''Title'', Value = ''Nobody''\<rparr>] ''Id'' = Some ''48''
   \<and> \<not> Contains_space ''48''
   \<and> (\<exists>e. fst (parseArticle sampleEnv ''books/go/020-more/040-nobody.md'') = Returned (Inl e))
   \<and> (\<exists>pre. snd (parseArticle sampleEnv ''books/go/020-more/040-nobody.md'')
         = pre @ [''K: Id'' @ nl @ ''V: 48'' @ nl, ''K: Title'' @ nl @ ''V: Nobody'' @ nl])
   \<and> (\<exists>a. fst (parseArticle sampleEnv ''books/go/020-more/010-html.md'') = Returned (Inr a)
         \<and> BodyMarkdown a = '''' \<and> BodyHTML a = ''<p>x</p>'')
   \<and> (\<exists>a. fst (parseArticle sampleEnv ''books/go/010-basics/010-intro.md'') = Returned (Inr a)
         \<and> BodyMarkdown a = ''hello'' \<and> BodyHTML a = '''')"
proof -
  let ?nobody = "''books/go/020-more/040-nobody.md''"
  let ?html = "''books/go/020-more/010-html.md''"
  let ?intro = "''books/go/010-basics/010-intro.md''"
  let ?dn = "[\<lparr>Key = ''Id'', Value = ''48''\<rparr>, \<lparr>Key = ''Title'', Value = ''Nobody''\<rparr>]"
  let ?dh = "[\<lparr>Key = ''Id'', Value = ''45''\<rparr>, \<lparr>Key = ''Title'', Value = ''Html''\<rparr>,
              \<lparr>Key = ''BodyHtml'', Value = ''<p>x</p>''\<rparr>]"
  let ?di = "[\<lparr>Key = ''Id'', Value = ''42''\<rparr>, \<lparr>Key = ''Title'', Value = ''Intro''\<rparr>,
              \<lparr>Key = ''Body'', Value = ''hello''\<rparr>]"
  have pn: "fst (paarseKVFileWithIncludes sampleEnv ?nobody) = (?dn, None)" by code_simp
  have ph: "fst (paarseKVFileWithIncludes sampleEnv ?html) = (?dh, None)" by code_simp
  have pi: "fst (paarseKVFileWithIncludes sampleEnv ?intro) = (?di, None)" by code_simp
  have ln: "lookup ?dn ''Id'' = Some ''48''" "lookup ?dn ''Body'' = None" "lookup ?dn ''BodyHtml'' = None"
    by (simp_all add: lookup_def)
  have lh: "lookup ?dh ''Id'' = Some ''45''" "lookup ?dh ''Body'' = None"
      "lookup ?dh ''BodyHtml'' = Some ''<p>x</p>''"
    by (simp_all add: lookup_def)
  have li: "lookup ?di ''Id'' = Some ''42''" "lookup ?di ''Body'' = Some ''hello''"
    by (simp_all add: lookup_def)
  have s: "\<not> Contains_space ''48''" "\<not> Contains_space ''45''" "\<not> Contains_space ''42''"
    by (simp_all add: Contains_space_def)
  have dump: "dumpKV sampleEnv ?dn = [''K: Id'' @ nl @ ''V: 48'' @ nl, ''K: Title'' @ nl @ ''V: Nobody'' @ nl]"
    by (simp add: dumpKV_def sampleEnv_def)
  from parseArticle_body_fields [OF pn ln(1) s(1)] ln dump
  have n: "\<exists>e. fst (parseArticle sampleEnv ?nobody) = Returned (Inl e)"
    "\<exists>pre. snd (parseArticle sampleEnv ?nobody)
         = pre @ [''K: Id'' @ nl @ ''V: 48'' @ nl, ''K: Title'' @ nl @ ''V: Nobody'' @ nl]"
    by simp_all
  from parseArticle_body_fields [OF ph lh(1) s(2)] lh
  have h: "\<exists>a. fst (parseArticle sampleEnv ?html) = Returned (Inr a)
         \<and> BodyMarkdown a = '''' \<and> BodyHTML a = ''<p>x</p>''"
    by blast
  from parseArticle_body_fields [OF pi li(1) s(3)] li
  have i: "\<exists>a. fst (parseArticle sampleEnv ?intro) = Returned (Inr a)
         \<and> BodyMarkdown a = ''hello'' \<and> BodyHTML a = ''''"
    by blast
  from pn ln(1) s(1) n h i show ?thesis by blast
qed

text \<open>
  \<^bold>\<open>C7\<close> (as amended). An article whose \<^verbatim>\<open>Id\<close> entry contains a space character is
  rejected by \<^verbatim>\<open>parseArticle\<close> with the error \<^verbatim>\<open>has space in it\<close>, and so is a chapter by
  \<^verbatim>\<open>parseChapter\<close> when its index document has a title and an \<^verbatim>\<open>Id\<close> with a space. So the
  identifier of an article that \<^verbatim>\<open>parseArticle\<close> returns has no space, and after a
  \<^verbatim>\<open>parseChapter\<close> that returns \<^verbatim>\<open>nil\<close> neither the identifier of the chapter nor that of any
  of its articles has one. The check is \<^verbatim>\<open>strings.Contains(id, " ")\<close>: it is about the
  space character only.
\<close>

theorem identifier_with_space_rejected:
  "(fst (paarseKVFileWithIncludes E path) = (doc, None) \<and> lookup doc ''Id'' = Some ident
      \<and> Contains_space ident \<longrightarrow>
      fst (parseArticle E path) =
        Returned (Inl (Error (''parseArticle('' @ sq @ path @ sq @ ''), res.ID = ''
                                @ sq @ ident @ sq @ '' has space in it''))))
   \<and> (fst (paarseKVFileWithIncludes E (Join E [Join E [sourceDir book, ChapterDir chapter], ''000-index.md'']))
        = (doc', None)
      \<and> lookup doc' ''Title'' = Some title \<and> lookup doc' ''Id'' = Some ident' \<and> Contains_space ident' \<longrightarrow>
      (\<exists>c. fst (parseChapter E book chapter) =
        Returned (c, Some (Error (''parseChapter(''
            @ sq @ Join E [Join E [sourceDir book, ChapterDir chapter], ''000-index.md''] @ sq
            @ ''), chapter.ID = '' @ sq @ ident' @ sq @ '' has space in it'')))))
   \<and> (fst (parseArticle E path2) = Returned (Inr a) \<longrightarrow> \<not> Contains_space (Article.ID a))
   \<and> (fst (parseChapter E book2 chapter2) = Returned (c2, None) \<longrightarrow>
        \<not> Contains_space (Chapter.ID c2) \<and> (\<forall>a \<in> set (Articles c2). \<not> Contains_space (Article.ID a)))"
proof -
  have 1: "fst (parseArticle E path) =
        Returned (Inl (Error (''parseArticle('' @ sq @ path @ sq @ ''), res.ID = ''
                                @ sq @ ident @ sq @ '' has space in it'')))"
    if "fst (paarseKVFileWithIncludes E path) = (doc, None)" "lookup doc ''Id'' = Some ident"
      "Contains_space ident"
  proof -
    from that(1) obtain out0 where "paarseKVFileWithIncludes E path = ((doc, None), out0)"
      by (rule paarse_split)
    with that(2,3) show ?thesis
      by (simp add: parseArticle_def GetValue_lookup)
  qed
  let ?ip = "Join E [Join E [sourceDir book, ChapterDir chapter], ''000-index.md'']"
  have 2: "\<exists>c. fst (parseChapter E book chapter) =
        Returned (c, Some (Error (''parseChapter('' @ sq @ ?ip @ sq
            @ ''), chapter.ID = '' @ sq @ ident' @ sq @ '' has space in it'')))"
    if "fst (paarseKVFileWithIncludes E ?ip) = (doc', None)"
      "lookup doc' ''Title'' = Some title" "lookup doc' ''Id'' = Some ident'" "Contains_space ident'"
  proof -
    from that(1) obtain out0 where "paarseKVFileWithIncludes E ?ip = ((doc', None), out0)"
      by (rule paarse_split)
    then show ?thesis
      by (simp add: parseChapter_def Let_def parseChapterDoc_space [OF that(2,3,4)])
  qed
  have 3: "\<not> Contains_space (Article.ID a)" if "fst (parseArticle E path2) = Returned (Inr a)"
    using parseArticle_Inr(4) [of E path2 a "snd (parseArticle E path2)"] that
    by (metis prod.collapse)
  have 4: "\<not> Contains_space (Chapter.ID c2) \<and> (\<forall>a \<in> set (Articles c2). \<not> Contains_space (Article.ID a))"
    if "fst (parseChapter E book2 chapter2) = Returned (c2, None)"
  proof -
    from that obtain out where p: "parseChapter E book2 chapter2 = (Returned (c2, None), out)"
      by (metis prod.collapse)
    from p obtain doc0 out' where
      d: "parseChapterDoc E (Join E [sourceDir book2, ChapterDir chapter2])
         (Join E [Join E [sourceDir book2, ChapterDir chapter2], ''000-index.md'']) doc0
         (chapter2\<lparr>indexFilePath := Join E [Join E [sourceDir book2, ChapterDir chapter2], ''000-index.md'']\<rparr>)
       = (Returned (c2, None), out')"
      by (rule parseChapter_cases)
    from parseChapterDoc_parsed(1) [OF d] obtain articles where
      a: "Articles c2 = buildArticleSiblings articles"
         "\<forall>a \<in> set articles. \<not> Contains_space (Article.ID a)"
      by blast
    have "set (map Article.ID (Articles c2)) = set (map Article.ID articles)"
      by (simp only: a(1) map_Article_buildArticleSiblings)
    with a(2) have "\<forall>a \<in> set (Articles c2). \<not> Contains_space (Article.ID a)"
      by (metis (no_types, lifting) image_iff list.set_map)
    with parseChapterDoc_parsed(2) [OF d] show ?thesis by blast
  qed
  from 1 2 3 4 show ?thesis by blast
qed

theorem identifier_with_space_rejected_witness:
  "fst (paarseKVFileWithIncludes sampleEnv ''books/go/020-more/030-space.md'')
     = ([\<lparr>Key = ''Id'', Value = ''4 7''\<rparr>, \<lparr>Key = ''Title'', Value = ''Space''\<rparr>,
         \<lparr>Key = ''Body'', Value = ''b''\<rparr>], None)
   \<and> Contains_space ''4 7''
   \<and> fst (parseArticle sampleEnv ''books/go/020-more/030-space.md'') =
        Returned (Inl (Error (''parseArticle('' @ sq @ ''books/go/020-more/030-space.md'' @ sq
            @ ''), res.ID = '' @ sq @ ''4 7'' @ sq @ '' has space in it'')))
   \<and> Contains_space ''30 0''
   \<and> (\<exists>c. fst (parseChapter sampleEnv sampleBook (newChapter sampleBook ''030-space'')) =
        Returned (c, Some (Error (''parseChapter('' @ sq @ ''books/go/030-space/000-index.md'' @ sq
            @ ''), chapter.ID = '' @ sq @ ''30 0'' @ sq @ '' has space in it''))))
   \<and> fst (parseArticle sampleEnv ''books/go/010-basics/010-intro.md'')
        = Returned (Inr (newArticle ''books/go/010-basics/010-intro.md'' ''42'' ''Intro'' ''a-42-intro''
            ''hello'' ''''))
   \<and> \<not> Contains_space ''42''
   \<and> fst (parseChapter sampleEnv sampleBook (newChapter sampleBook ''020-more''))
        = Returned ((sampleChapters ! 1)\<lparr>Chapter.No := 0\<rparr>, None)
   \<and> \<not> Contains_space (Chapter.ID (sampleChapters ! 1))"
proof -
  let ?space = "''books/go/020-more/030-space.md''"
  let ?intro = "''books/go/010-basics/010-intro.md''"
  let ?ds = "[\<lparr>Key = ''Id'', Value = ''4 7''\<rparr>, \<lparr>Key = ''Title'', Value = ''Space''\<rparr>,
              \<lparr>Key = ''Body'', Value = ''b''\<rparr>]"
  let ?dc = "[\<lparr>Key = ''Title'', Value = ''Space''\<rparr>, \<lparr>Key = ''Id'', Value = ''30 0''\<rparr>]"
  let ?ch = "newChapter sampleBook ''030-space''"
  have ps: "fst (paarseKVFileWithIncludes sampleEnv ?space) = (?ds, None)" by code_simp
  have ls: "lookup ?ds ''Id'' = Some ''4 7''" by (simp add: lookup_def)
  have cs: "Contains_space ''4 7''" "Contains_space ''30 0''" "\<not> Contains_space ''42''"
    by (simp_all add: Contains_space_def)
  have ip: "Join sampleEnv [Join sampleEnv [sourceDir sampleBook, ChapterDir ?ch], ''000-index.md'']
      = ''books/go/030-space/000-index.md''"
    by code_simp
  have pc: "fst (paarseKVFileWithIncludes sampleEnv
      (Join sampleEnv [Join sampleEnv [sourceDir sampleBook, ChapterDir ?ch], ''000-index.md'']))
      = (?dc, None)"
    by code_simp
  have lc: "lookup ?dc ''Title'' = Some ''Space''" "lookup ?dc ''Id'' = Some ''30 0''"
    by (simp_all add: lookup_def)
  have pi: "fst (parseArticle sampleEnv ?intro)
        = Returned (Inr (newArticle ?intro ''42'' ''Intro'' ''a-42-intro'' ''hello'' ''''))"
    by code_simp
  have pm: "fst (parseChapter sampleEnv sampleBook (newChapter sampleBook ''020-more''))
        = Returned ((sampleChapters ! 1)\<lparr>Chapter.No := 0\<rparr>, None)"
    by code_simp
  from identifier_with_space_rejected [of sampleEnv ?space ?ds "''4 7''" sampleBook ?ch ?dc
      "''Space''" "''30 0''" ?intro "newArticle ?intro ''42'' ''Intro'' ''a-42-intro'' ''hello'' ''''"
      sampleBook "newChapter sampleBook ''020-more''" "(sampleChapters ! 1)\<lparr>Chapter.No := 0\<rparr>"]
    ps ls cs pc lc pi pm
  show ?thesis unfolding ip by simp
qed

text \<open>
  \<^bold>\<open>C7\<close> as stated, with white space in general, fails: the identifier \<^verbatim>\<open>4<TAB>6\<close> contains
  a tab, and \<^verbatim>\<open>parseArticle\<close> returns the article.
\<close>

theorem whitespace_identifier_accepted:
  "fst (parseArticle sampleEnv ''books/go/020-more/020-tab.md'') =
     Returned (Inr (newArticle ''books/go/020-more/020-tab.md'' (''4'' @ [CHR 0x09] @ ''6'') ''Tab''
                      (''a-4'' @ [CHR 0x09] @ ''6-tab'') ''b'' ''''))
   \<and> Contains_whitespace (Article.ID (newArticle ''books/go/020-more/020-tab.md''
        (''4'' @ [CHR 0x09] @ ''6'') ''Tab'' (''a-4'' @ [CHR 0x09] @ ''6-tab'') ''b'' ''''))"
  by code_simp

text \<open>
  \<^bold>\<open>C10.\<close> With an empty cache \<^verbatim>\<open>ArticlesCount\<close> returns the number of articles of all
  chapters plus the number of chapters, as a 64-bit integer (the number itself when it is
  below \<open>2\<^sup>6\<^sup>3\<close>). When the value returned is not \<open>0\<close>, a later call on the book returns the
  same value and leaves the book as it is, whatever list of chapters the book has been
  given in between. When it is \<open>0\<close>, nothing is cached, and a later call counts the
  chapters the book then has.
\<close>

theorem ArticlesCount_memoized:
  "(cachedArticlesCount b = 0 \<longrightarrow>
      fst (ArticlesCount b) = of_nat (totalArticles (Chapters b))
    \<and> (totalArticles (Chapters b) < 2 ^ 63 \<longrightarrow>
         sint (fst (ArticlesCount b)) = int (totalArticles (Chapters b))))
   \<and> (fst (ArticlesCount b) \<noteq> 0 \<longrightarrow>
        ArticlesCount ((snd (ArticlesCount b))\<lparr>Chapters := chapters\<rparr>)
          = (fst (ArticlesCount b), (snd (ArticlesCount b))\<lparr>Chapters := chapters\<rparr>))
   \<and> (fst (ArticlesCount b) = 0 \<longrightarrow>
        cachedArticlesCount (snd (ArticlesCount b)) = 0
      \<and> fst (ArticlesCount ((snd (ArticlesCount b))\<lparr>Chapters := chapters\<rparr>))
          = of_nat (totalArticles chapters))"
proof -
  let ?b' = "(snd (ArticlesCount b))\<lparr>Chapters := chapters\<rparr>"
  have A: "fst (ArticlesCount b) = of_nat (totalArticles (Chapters b))
    \<and> (totalArticles (Chapters b) < 2 ^ 63 \<longrightarrow>
         sint (fst (ArticlesCount b)) = int (totalArticles (Chapters b)))"
    if "cachedArticlesCount b = 0"
    using ArticlesCount_first [OF that] by (simp add: sint_of_nat_small)
  have cache: "cachedArticlesCount (snd (ArticlesCount b)) = fst (ArticlesCount b)"
    by (cases "cachedArticlesCount b = 0") (simp_all add: ArticlesCount_first ArticlesCount_cached)
  have B: "ArticlesCount ?b' = (fst (ArticlesCount b), ?b')"
    if "fst (ArticlesCount b) \<noteq> 0"
  proof -
    have "cachedArticlesCount ?b' \<noteq> 0" using cache that by simp
    from ArticlesCount_cached [OF this] cache show ?thesis by simp
  qed
  have C: "cachedArticlesCount (snd (ArticlesCount b)) = 0
      \<and> fst (ArticlesCount ?b') = of_nat (totalArticles chapters)"
    if "fst (ArticlesCount b) = 0"
  proof -
    have "cachedArticlesCount ?b' = 0" using cache that by simp
    from ArticlesCount_first [OF this] cache that show ?thesis by simp
  qed
  from A B C show ?thesis by blast
qed

theorem ArticlesCount_memoized_witness:
  "cachedArticlesCount (sampleBook\<lparr>cachedArticlesCount := 0\<rparr>) = 0
   \<and> totalArticles sampleChapters = 6
   \<and> fst (ArticlesCount (sampleBook\<lparr>cachedArticlesCount := 0\<rparr>)) = 6
   \<and> sint (fst (ArticlesCount (sampleBook\<lparr>cachedArticlesCount := 0\<rparr>))) = 6
   \<and> fst (ArticlesCount ((snd (ArticlesCount (sampleBook\<lparr>cachedArticlesCount := 0\<rparr>)))\<lparr>Chapters := []\<rparr>)) = 6
   \<and> fst (ArticlesCount (sampleBook\<lparr>Chapters := [], cachedArticlesCount := 0\<rparr>)) = 0
   \<and> fst (ArticlesCount ((snd (ArticlesCount (sampleBook\<lparr>Chapters := [], cachedArticlesCount := 0\<rparr>)))
            \<lparr>Chapters := sampleChapters\<rparr>)) = 6"
proof -
  let ?b = "sampleBook\<lparr>cachedArticlesCount := 0\<rparr>"
  let ?e = "sampleBook\<lparr>Chapters := [], cachedArticlesCount := 0\<rparr>"
  have c: "cachedArticlesCount ?b = 0" "cachedArticlesCount ?e = 0" by simp_all
  have t: "totalArticles sampleChapters = 6" "totalArticles [] = 0"
    by (simp_all add: totalArticles_def sampleChapters_def)
  have ch: "Chapters ?b = sampleChapters" "Chapters ?e = []"
    by (simp_all add: sampleBook_def)
  from ArticlesCount_memoized [of ?b "[]"] ArticlesCount_memoized [of ?e sampleChapters] c t ch
  show ?thesis by simp
qed

text \<open>
  \<^bold>\<open>C9.\<close> The claim that an error is reported to the caller when a chapter fails does not
  hold. Two inputs show it, both with two slots and with the chapter directories listed
  in the order of their names.

  With the chapter directories \<^verbatim>\<open>020-more\<close> and \<^verbatim>\<open>050-untitled\<close>, whose index file has no
  \<^verbatim>\<open>Title\<close>, \<^verbatim>\<open>parseChapter\<close> returns an error for the second chapter and leaves its
  identifier empty. The contributors chapter has an empty identifier too, so
  \<^verbatim>\<open>ensureUniqueIds\<close> prints its report and ends the process: \<^verbatim>\<open>parseBook\<close> returns nothing
  to its caller, in the sequential function and in every run of the goroutines that gets
  past the barrier.

  With the chapter directories \<^verbatim>\<open>020-more\<close> and \<^verbatim>\<open>030-space\<close>, \<^verbatim>\<open>parseChapter\<close> returns an
  error for the second chapter. In the run of \<open>raceSchedule\<close> the goroutine of that chapter
  assigns the error to \<^verbatim>\<open>err\<close>, and the goroutine of \<^verbatim>\<open>020-more\<close> assigns \<^verbatim>\<open>nil\<close> to \<^verbatim>\<open>err\<close>
  before the goroutine of \<^verbatim>\<open>030-space\<close> tests it; \<^verbatim>\<open>err2\<close> is never written, the barrier is
  passed with both goroutines done, and \<^verbatim>\<open>parseBook\<close> returns a book with a \<^verbatim>\<open>nil\<close> error.

  (That at most \<^verbatim>\<open>nProcs\<close> calls are in flight and that all goroutines are done past the
  barrier hold in every run: \<open>inFlight_bounded\<close>, \<open>all_done_after_barrier\<close>.)
\<close>

theorem chapter_error_not_reported:
  "map FileInfo.Name (fst (ReadDir untitledEnv ''books/go'')) = [''020-more'', ''050-untitled'']
   \<and> fst (parseChapter untitledEnv (newBook untitledEnv ''Go'')
            (newChapter (newBook untitledEnv ''Go'') ''050-untitled''))
       = Returned (untitledChapter, Some untitledError)
   \<and> Chapter.ID untitledChapter = ''''
   \<and> Chapter.ID (genContributorsChapter (newBook untitledEnv ''Go'')) = ''''
   \<and> parseBook untitledEnv ''Go'' =
       (Exited 1,
        [''Parsing book Go'' @ nl,
         ''Duplicate chapter id '' @ sq @ sq @ '' in:'' @ nl,
         ''Chapter '' @ sq @ ''Contributors'' @ sq @ '', file: '' @ sq @ sq @ nl,
         ''Chapter '' @ sq @ sq @ '', file: '' @ sq @ ''books/go/050-untitled/000-index.md'' @ sq @ nl])
   \<and> (\<forall>s. reachable untitledEnv ''Go'' s \<and> scannerPc s = Finished \<longrightarrow>
          returnAfterBarrier untitledEnv ''Go'' s = Exited 1)
   \<and> map FileInfo.Name (fst (ReadDir raceEnv ''books/go'')) = [''020-more'', ''030-space'']
   \<and> runSchedule raceEnv (fst (ReadDir raceEnv (sourceDir (newBook raceEnv ''Go'')))) raceSchedule
        (initial raceEnv ''Go'') = Some raceFinal
   \<and> reachable raceEnv ''Go'' raceFinal
   \<and> scannerPc raceFinal = Finished
   \<and> fst (parseChapter raceEnv (newBook raceEnv ''Go'')
            (newChapter (newBook raceEnv ''Go'') ''030-space''))
       = Returned (spaceChapter, Some spaceError)
   \<and> int (inFlight raceFinal) \<le> getAlmostMaxProcs raceEnv
   \<and> err2Var raceFinal = None
   \<and> returnedBookAndNil (returnAfterBarrier raceEnv ''Go'' raceFinal)"
proof -
  have l1: "map FileInfo.Name (fst (ReadDir untitledEnv ''books/go'')) = [''020-more'', ''050-untitled'']"
    by (simp add: untitledEnv_def)
  have i1: "Chapter.ID untitledChapter = ''''"
    by (simp add: untitledChapter_def newChapter_def)
  have i2: "Chapter.ID (genContributorsChapter (newBook untitledEnv ''Go'')) = ''''"
    by (simp add: genContributorsChapter_def Let_def)
  have seq: "parseBook untitledEnv ''Go'' =
       (Exited 1,
        [''Parsing book Go'' @ nl,
         ''Duplicate chapter id '' @ sq @ sq @ '' in:'' @ nl,
         ''Chapter '' @ sq @ ''Contributors'' @ sq @ '', file: '' @ sq @ sq @ nl,
         ''Chapter '' @ sq @ sq @ '', file: '' @ sq @ ''books/go/050-untitled/000-index.md'' @ sq @ nl])"
    by code_simp
  then have ex: "fst (parseBook untitledEnv ''Go'') = Exited 1"
    by simp
  have runs: "\<forall>s. reachable untitledEnv ''Go'' s \<and> scannerPc s = Finished \<longrightarrow>
          returnAfterBarrier untitledEnv ''Go'' s = Exited 1"
    using exit_in_every_run [OF ex untitled_loop] by blast
  have l2: "map FileInfo.Name (fst (ReadDir raceEnv ''books/go'')) = [''020-more'', ''030-space'']"
    by (simp add: raceEnv_def)
  have nil: "returnedBookAndNil (returnAfterBarrier raceEnv ''Go'' raceFinal)"
    by code_simp
  have fin: "scannerPc raceFinal = Finished" "err2Var raceFinal = None"
    by (simp_all add: raceFinal_def raceState_def)
  from l1 untitled_parse i1 i2 seq runs l2 race_schedule race_run fin(1) race_space
    inFlight_bounded [OF race_run] fin(2) nil
  show ?thesis by (intro conjI)
qed

theorem chapter_error_not_reported_witness:
  "runSchedule untitledEnv (fst (ReadDir untitledEnv (sourceDir (newBook untitledEnv ''Go''))))
      untitledSchedule (initial untitledEnv ''Go'') = Some untitledFinal
   \<and> reachable untitledEnv ''Go'' untitledFinal
   \<and> scannerPc untitledFinal = Finished
   \<and> err2Var untitledFinal = Some untitledError
   \<and> returnAfterBarrier untitledEnv ''Go'' untitledFinal = Exited 1"
proof -
  have fin: "scannerPc untitledFinal = Finished" "err2Var untitledFinal = Some untitledError"
    by (simp_all add: untitledFinal_def)
  have "\<forall>s. reachable untitledEnv ''Go'' s \<and> scannerPc s = Finished \<longrightarrow>
          returnAfterBarrier untitledEnv ''Go'' s = Exited 1"
    using chapter_error_not_reported by (elim conjE)
  with untitled_run fin(1) have "returnAfterBarrier untitledEnv ''Go'' untitledFinal = Exited 1"
    by blast
  with untitled_schedule untitled_run fin show ?thesis by (intro conjI)
qed

end
